theory Spec2Isabelle
  imports Main
begin

section \<open>Strings\<close>

text \<open>
  JavaScript strings are modelled as \<^typ>\<open>string\<close> (lists of characters).
  \<^verbatim>\<open>s.startsWith(p)\<close> compares the first \<open>length p\<close> characters of \<open>s\<close> with \<open>p\<close>.
\<close>

definition startsWith :: "string \<Rightarrow> string \<Rightarrow> bool" where
  "startsWith s p = (take (length p) s = p)"


text \<open>
  \<^verbatim>\<open>s.trim()\<close> removes white space and line terminators from both ends. Of the
  characters JavaScript counts as such, these are the ones a \<^typ>\<open>char\<close> can hold:
  U+0009 to U+000D, U+0020 and U+00A0.
\<close>

definition isWhiteSpace :: "char \<Rightarrow> bool" where
  "isWhiteSpace c = (c \<in> {CHR 0x09, CHR 0x0A, CHR 0x0B, CHR 0x0C, CHR 0x0D, CHR 0x20, CHR 0xA0})"

definition trim :: "string \<Rightarrow> string" where
  "trim s = rev (dropWhile isWhiteSpace (rev (dropWhile isWhiteSpace s)))"

text \<open>\<^verbatim>\<open>s.split('\n')\<close>: the pieces between the separators; at least one piece.\<close>

fun splitOn :: "char \<Rightarrow> string \<Rightarrow> string list" where
  "splitOn c [] = [[]]"
| "splitOn c (x # xs) =
     (if x = c then [] # splitOn c xs
      else (case splitOn c xs of [] \<Rightarrow> [[x]] | p # ps \<Rightarrow> (x # p) # ps))"

text \<open>
  \<^verbatim>\<open>s.split(/\r?\n/)\<close>: the separator is a line feed together with a carriage return
  directly before it, so every piece but the last loses one trailing carriage return.
\<close>

definition dropTrailingCR :: "string \<Rightarrow> string" where
  "dropTrailingCR s = (if s \<noteq> [] \<and> last s = CHR 0x0D then butlast s else s)"

definition splitLines :: "string \<Rightarrow> string list" where
  "splitLines s = (let ps = splitOn CHR 0x0A s in map dropTrailingCR (butlast ps) @ [last ps])"

text \<open>\<^verbatim>\<open>xs.join(sep)\<close>\<close>

fun joinWith :: "string \<Rightarrow> string list \<Rightarrow> string" where
  "joinWith sep [] = []"
| "joinWith sep [x] = x"
| "joinWith sep (x # y # ys) = x @ sep @ joinWith sep (y # ys)"

text \<open>Decimal rendering of a number in a template string, as in \<^verbatim>\<open>`#${pr.number}`\<close>.\<close>

definition digitChar :: "nat \<Rightarrow> char" where
  "digitChar d = char_of (48 + d)"

fun showNat :: "nat \<Rightarrow> string" where
  "showNat n = (if n < 10 then [digitChar n] else showNat (n div 10) @ [digitChar (n mod 10)])"

declare showNat.simps [simp del]

section \<open>Errors, events and the outside world\<close>

text \<open>
  Every thrown value and every rejected promise is an \<^verbatim>\<open>Error\<close> with a message.
\<close>

datatype error = Error (message: string)

record GithubRepo =
  owner :: string
  name :: string

record IFile =
  filename :: string

record IPullRequest =
  number :: nat
  html_url :: string
  title :: string
  state :: string

record IPullRequestSearchParams =
  head :: string
  searchState :: string

text \<open>
  The run is observed through the calls it makes to its collaborators (the logger,
  \<^verbatim>\<open>shelljs\<close>, \<^verbatim>\<open>fs\<close> and the repository-hosting client), in the order in which they
  are made. A call is recorded whether it succeeds or not.
\<close>

datatype event =
    LogInfo string
  | LogWarn error
  | LogDebug string
  | ShRm string string
  | ShMkdir string string
  | ShChmod string string
  | ShSed string string string string
  | WriteFileSync string string
  | ShPushd string string
  | ShPopd string
  | ShExec string
  | GetFileContents GithubRepo string string
  | GetLatestSha GithubRepo string
  | GetAffectedFiles GithubRepo string string
  | GetPullRequests GithubRepo IPullRequestSearchParams
  | CreatePullRequest GithubRepo string string string
  | AddLabels GithubRepo nat "string list"
  | Comment GithubRepo nat string
  | CreateIssue GithubRepo string string

text \<open>
  The environment holds the constants of \<^verbatim>\<open>../utils/constants\<close>, of the process and of
  \<^verbatim>\<open>GithubRepo\<close> that the two source files read, and the answers of the collaborators.
  An answer may depend on everything that has happened so far (the list of events) and on
  the arguments of the call; \<open>Inl\<close> (or \<open>Some\<close> for a call without a result) is a throw
  or a rejection. With \<^verbatim>\<open>sh.set('-e')\<close> a failing \<^verbatim>\<open>shelljs\<close> command throws.
\<close>

record env =
  upstreamOwner :: string
  upstreamName :: string
  originOwner :: string
  defaultBranch :: string
  ownOriginOwner :: string
  ownOriginName :: string
  GH_TOKEN :: string
  userName :: string
  userEmail :: string
  CI :: bool
  tmpdir :: string
  pathJoin :: "string \<Rightarrow> string \<Rightarrow> string"
  slug :: "GithubRepo \<Rightarrow> string"
  url :: "GithubRepo \<Rightarrow> string"
  stack :: "error \<Rightarrow> string"
  getLogs :: "event list \<Rightarrow> string list"
  jsonScripts :: "string \<Rightarrow> error + (string \<Rightarrow> string option)"
  failure :: "event list \<Rightarrow> event \<Rightarrow> error option"
  execStdout :: "event list \<Rightarrow> string \<Rightarrow> error + string"
  fileContents :: "event list \<Rightarrow> GithubRepo \<Rightarrow> string \<Rightarrow> string \<Rightarrow> error + string"
  latestShaOf :: "event list \<Rightarrow> GithubRepo \<Rightarrow> string \<Rightarrow> error + string"
  affectedFiles :: "event list \<Rightarrow> GithubRepo \<Rightarrow> string \<Rightarrow> string \<Rightarrow> error + IFile list"
  pullRequests :: "event list \<Rightarrow> GithubRepo \<Rightarrow> IPullRequestSearchParams \<Rightarrow> error + IPullRequest list"
  newPullRequest :: "event list \<Rightarrow> GithubRepo \<Rightarrow> string \<Rightarrow> string \<Rightarrow> string \<Rightarrow> error + IPullRequest"

section \<open>Computations that may throw\<close>

text \<open>
  A computation takes the events so far and returns its result, or the error it throws,
  together with the events extended by the calls it made.
\<close>

type_synonym 'a prog = "event list \<Rightarrow> (error + 'a) \<times> event list"

definition returnE :: "'a \<Rightarrow> 'a prog" where
  "returnE x = (\<lambda>h. (Inr x, h))"

definition throwE :: "error \<Rightarrow> 'a prog" where
  "throwE e = (\<lambda>h. (Inl e, h))"

definition bindE :: "'a prog \<Rightarrow> ('a \<Rightarrow> 'b prog) \<Rightarrow> 'b prog" where
  "bindE m f = (\<lambda>h. case m h of (Inl e, h') \<Rightarrow> (Inl e, h') | (Inr x, h') \<Rightarrow> f x h')"

definition thenE :: "'a prog \<Rightarrow> 'b prog \<Rightarrow> 'b prog" where
  "thenE m n = bindE m (\<lambda>_. n)"

text \<open>\<^verbatim>\<open>try { m } catch (err) { handler(err) }\<close>\<close>

definition tryCatch :: "'a prog \<Rightarrow> (error \<Rightarrow> 'a prog) \<Rightarrow> 'a prog" where
  "tryCatch m handler = (\<lambda>h. case m h of (Inl e, h') \<Rightarrow> handler e h' | (Inr x, h') \<Rightarrow> (Inr x, h'))"

text \<open>
  \<^verbatim>\<open>try { m } finally { fin }\<close>: \<open>fin\<close> runs in either case, and an error it throws
  replaces the outcome of \<open>m\<close>.
\<close>

definition tryFinally :: "'a prog \<Rightarrow> unit prog \<Rightarrow> 'a prog" where
  "tryFinally m fin =
     (\<lambda>h. case m h of (r, h') \<Rightarrow> (case fin h' of (Inl e, h'') \<Rightarrow> (Inl e, h'') | (Inr _, h'') \<Rightarrow> (r, h'')))"

text \<open>A call without a result, and the three logger methods (which do not throw).\<close>

definition perform :: "env \<Rightarrow> event \<Rightarrow> unit prog" where
  "perform env ev = (\<lambda>h. (case failure env h ev of None \<Rightarrow> Inr () | Some e \<Rightarrow> Inl e, h @ [ev]))"

definition logInfo :: "string \<Rightarrow> unit prog" where
  "logInfo s = (\<lambda>h. (Inr (), h @ [LogInfo s]))"

definition logWarn :: "error \<Rightarrow> unit prog" where
  "logWarn e = (\<lambda>h. (Inr (), h @ [LogWarn e]))"

definition logDebug :: "string \<Rightarrow> unit prog" where
  "logDebug s = (\<lambda>h. (Inr (), h @ [LogDebug s]))"

text \<open>\<^verbatim>\<open>xs.forEach(f)\<close> and \<^verbatim>\<open>xs.map(f)\<close> with a callback that may throw.\<close>

fun forEachE :: "('a \<Rightarrow> unit prog) \<Rightarrow> 'a list \<Rightarrow> unit prog" where
  "forEachE f [] = returnE ()"
| "forEachE f (x # xs) = thenE (f x) (forEachE f xs)"

text \<open>
  \<^verbatim>\<open>Promise.all(xs.map(f))\<close> for an asynchronous \<open>f\<close>: every call is started, in the
  order of \<open>xs\<close>, whether or not an earlier one is rejected; the results are joined in
  that order, and one rejection rejects the whole. The model lets each call settle
  before the next one starts and takes the first rejection in the order of \<open>xs\<close>.
\<close>

fun startAll :: "('a \<Rightarrow> 'b prog) \<Rightarrow> 'a list \<Rightarrow> event list \<Rightarrow> (error + 'b) list \<times> event list" where
  "startAll f [] h = ([], h)"
| "startAll f (x # xs) h =
     (case f x h of (r, h') \<Rightarrow> (case startAll f xs h' of (rs, h'') \<Rightarrow> (r # rs, h'')))"

fun joinAll :: "(error + 'b) list \<Rightarrow> error + 'b list" where
  "joinAll [] = Inr []"
| "joinAll (Inl e # rs) = Inl e"
| "joinAll (Inr x # rs) = (case joinAll rs of Inl e \<Rightarrow> Inl e | Inr xs \<Rightarrow> Inr (x # xs))"

definition promiseAll :: "('a \<Rightarrow> 'b prog) \<Rightarrow> 'a list \<Rightarrow> 'b list prog" where
  "promiseAll f xs = (\<lambda>h. case startAll f xs h of (rs, h') \<Rightarrow> (joinAll rs, h'))"

section \<open>The version-control adapter (git-repo.ts)\<close>

text \<open>
  \<^verbatim>\<open>ICommnandOptions\<close>: the keys of an options object in insertion order, each with a
  boolean, a string or a list of strings. An omitted options argument is the empty list:
  \<^verbatim>\<open>withOptions\<close> and the spread in \<^verbatim>\<open>commit\<close> treat the two alike.
\<close>

datatype optValue = Flag bool | Str string | Strs "string list"

type_synonym ICommnandOptions = "(string \<times> optValue) list"

text \<open>\<^verbatim>\<open>{...opts, message: v}\<close>: an existing key keeps its place.\<close>

fun setOpt :: "string \<Rightarrow> optValue \<Rightarrow> ICommnandOptions \<Rightarrow> ICommnandOptions" where
  "setOpt k v [] = [(k, v)]"
| "setOpt k v ((k', v') # kvs) = (if k' = k then (k, v) # kvs else (k', v') # setOpt k v kvs)"

definition renderOpt :: "string \<times> optValue \<Rightarrow> string" where
  "renderOpt kv =
     (let key = fst kv;
          name = (if length key = 1 then ''-'' @ key else ''--'' @ key);
          vals = (case snd kv of Flag b \<Rightarrow> [[]] | Str s \<Rightarrow> [s] | Strs ss \<Rightarrow> ss)
      in joinWith '' '' (map (\<lambda>v. trim (name @ '' '' @ v)) vals))"

definition withOptions :: "string \<Rightarrow> ICommnandOptions \<Rightarrow> string" where
  "withOptions cmd opts =
     (let optsStr = joinWith '' '' (map renderOpt (filter (\<lambda>kv. snd kv \<noteq> Flag False) opts))
      in if optsStr \<noteq> [] then cmd @ '' '' @ optsStr else cmd)"

record GitRepo =
  directory :: string
  destroyed :: bool

definition ORIGIN :: string where
  "ORIGIN = ''origin''"

definition UPSTREAM :: string where
  "UPSTREAM = ''upstream''"

definition closedResourceError :: error where
  "closedResourceError = Error ''Repository already destroyed.''"

text \<open>\<^verbatim>\<open>sh.exec(cmd, {silent: true})\<close>; the result is read through its standard output only.\<close>

definition shExec :: "env \<Rightarrow> string \<Rightarrow> string prog" where
  "shExec env cmd = (\<lambda>h. (execStdout env h cmd, h @ [ShExec cmd]))"

definition execInRepo :: "env \<Rightarrow> GitRepo \<Rightarrow> string \<Rightarrow> ICommnandOptions \<Rightarrow> string prog" where
  "execInRepo env repo partialCmd opts =
     (if destroyed repo then throwE closedResourceError
      else tryFinally
        (thenE (perform env (ShPushd ''-q'' (directory repo)))
          (let cmd = withOptions (trim partialCmd) opts in
           thenE (logDebug (''GIT: '' @ cmd))
            (bindE (shExec env cmd) (\<lambda>result.
              thenE (forEachE (\<lambda>line. logDebug (''GIT: '' @ line))
                       (filter (\<lambda>line. trim line \<noteq> []) (splitOn CHR 0x0A result)))
                (returnE result)))))
        (perform env (ShPopd ''-q'')))"

definition currentBranch :: "env \<Rightarrow> GitRepo \<Rightarrow> string prog" where
  "currentBranch env repo =
     bindE (execInRepo env repo ''git rev-parse --abbrev-ref HEAD'' []) (\<lambda>out. returnE (trim out))"

definition addRemote :: "env \<Rightarrow> GitRepo \<Rightarrow> string \<Rightarrow> string \<Rightarrow> unit prog" where
  "addRemote env repo nm u =
     thenE (execInRepo env repo (''git remote remove '' @ nm @ '' || true'') [])
       (thenE (execInRepo env repo (''git remote add '' @ nm @ '' '' @ u) []) (returnE ()))"

definition checkout :: "env \<Rightarrow> GitRepo \<Rightarrow> string \<Rightarrow> ICommnandOptions \<Rightarrow> unit prog" where
  "checkout env repo ref opts = thenE (execInRepo env repo (''git checkout '' @ ref) opts) (returnE ())"

definition commit :: "env \<Rightarrow> GitRepo \<Rightarrow> string \<Rightarrow> ICommnandOptions \<Rightarrow> unit prog" where
  "commit env repo msg opts =
     thenE (execInRepo env repo ''git commit''
              (setOpt ''message'' (Strs (map (\<lambda>m. ''\"'' @ m @ ''\"'') (splitLines msg))) opts))
       (returnE ())"

definition config :: "env \<Rightarrow> GitRepo \<Rightarrow> string \<Rightarrow> string \<Rightarrow> unit prog" where
  "config env repo key val =
     thenE (execInRepo env repo (''git config '' @ key @ '' '' @ val) []) (returnE ())"

text \<open>
  The overloads of \<^verbatim>\<open>fetch\<close> and \<^verbatim>\<open>push\<close> are told apart by which arguments are
  strings; the argument shapes are the constructors below.
\<close>

datatype fetchArgs = FetchOpts ICommnandOptions | FetchBranch string ICommnandOptions

definition fetch :: "env \<Rightarrow> GitRepo \<Rightarrow> string \<Rightarrow> fetchArgs \<Rightarrow> unit prog" where
  "fetch env repo remote args =
     (case args of
        FetchOpts opts \<Rightarrow>
          thenE (execInRepo env repo (''git fetch '' @ remote @ '' '' @ []) opts) (returnE ())
      | FetchBranch branch opts \<Rightarrow>
          thenE (execInRepo env repo (''git fetch '' @ remote @ '' '' @ branch) opts) (returnE ()))"

datatype pushArgs =
    PushOpts ICommnandOptions
  | PushRemoteBranch string ICommnandOptions
  | PushBranches string string ICommnandOptions

definition push :: "env \<Rightarrow> GitRepo \<Rightarrow> string \<Rightarrow> pushArgs \<Rightarrow> unit prog" where
  "push env repo remote args =
     (case args of
        PushOpts opts \<Rightarrow>
          bindE (currentBranch env repo) (\<lambda>cur.
            thenE (execInRepo env repo (''git push '' @ remote @ '' '' @ cur @ '':'' @ cur) opts)
              (returnE ()))
      | PushRemoteBranch remoteBranch opts \<Rightarrow>
          bindE (currentBranch env repo) (\<lambda>cur.
            thenE (execInRepo env repo (''git push '' @ remote @ '' '' @ cur @ '':'' @ remoteBranch) opts)
              (returnE ()))
      | PushBranches localBranch remoteBranch opts \<Rightarrow>
          thenE (execInRepo env repo
                   (''git push '' @ remote @ '' '' @ localBranch @ '':'' @ remoteBranch) opts)
            (returnE ()))"

text \<open>\<^verbatim>\<open>deleteRemoteBranch\<close> pushes the empty local branch name; its options are not used.\<close>

definition deleteRemoteBranch :: "env \<Rightarrow> GitRepo \<Rightarrow> string \<Rightarrow> string \<Rightarrow> unit prog" where
  "deleteRemoteBranch env repo remote branch = push env repo remote (PushBranches [] branch [])"

text \<open>
  The pattern \<^verbatim>\<open>new RegExp(`^${remote}/`)\<close> is applied to lines that start with
  \<^verbatim>\<open>`${remote}/`\<close>; for a remote name without pattern characters (the callers pass
  \<open>ORIGIN\<close>) it removes exactly that prefix.
\<close>

definition getRemoteBranches :: "env \<Rightarrow> GitRepo \<Rightarrow> string \<Rightarrow> string list prog" where
  "getRemoteBranches env repo remote =
     thenE (fetch env repo remote (FetchOpts [(''depth'', Str ''1''), (''no-tags'', Flag True)]))
       (bindE (execInRepo env repo ''git branch'' [(''remote'', Flag True)]) (\<lambda>branchesOutput.
          returnE
            (map (\<lambda>line. drop (length (remote @ ''/'')) line)
              (filter (\<lambda>line. startsWith line (remote @ ''/''))
                (map trim (splitOn CHR 0x0A branchesOutput))))))"

definition init :: "env \<Rightarrow> GitRepo \<Rightarrow> ICommnandOptions \<Rightarrow> unit prog" where
  "init env repo opts = thenE (execInRepo env repo ''git init'' opts) (returnE ())"

text \<open>
  \<^verbatim>\<open>destroy\<close> returns the object as it is afterwards; when \<^verbatim>\<open>sh.rm\<close> throws, the
  flag has not been set.
\<close>

definition destroy :: "env \<Rightarrow> GitRepo \<Rightarrow> GitRepo prog" where
  "destroy env repo =
     (if \<not> destroyed repo
      then thenE (perform env (ShRm ''-rf'' (directory repo))) (returnE (repo\<lparr>destroyed := True\<rparr>))
      else returnE repo)"


section \<open>The upgradelet (upgrade-cli-src.ts)\<close>

definition NL :: string where
  "NL = [CHR 0x0A]"

definition SQ :: string where
  "SQ = [CHR 0x27]"

definition CB_REPO_NAME :: string where
  "CB_REPO_NAME = ''cli-builds''"

definition AIO_PKG_PATH :: string where
  "AIO_PKG_PATH = ''aio/package.json''"

definition AIO_SCRIPT_NAME :: string where
  "AIO_SCRIPT_NAME = ''extract-cli-command-docs''"

text \<open>\<^verbatim>\<open>parse(__filename).name\<close> for the file \<^verbatim>\<open>upgrade-cli-src\<close>.\<close>

definition LOCAL_BRANCH_PREFIX :: string where
  "LOCAL_BRANCH_PREFIX = ''upgrade-cli-src''"

definition COMMIT_MESSAGE_PREFIX :: string where
  "COMMIT_MESSAGE_PREFIX = ''build(docs-infra): upgrade cli command docs sources to ''"

definition CREDENTIALS_PATH :: "env \<Rightarrow> string" where
  "CREDENTIALS_PATH env = pathJoin env (tmpdir env) (''.git-credentials--'' @ LOCAL_BRANCH_PREFIX)"

definition PR_LABELS :: "string list" where
  "PR_LABELS = [''comp: build & ci'', ''comp: docs-infra'', ''PR action: review'', ''PR target: TBD'']"

definition REPORT_ERRORS :: "env \<Rightarrow> bool" where
  "REPORT_ERRORS env = CI env"

definition upstreamRepo :: "env \<Rightarrow> GithubRepo" where
  "upstreamRepo env = \<lparr>owner = upstreamOwner env, name = upstreamName env\<rparr>"

definition originRepo :: "env \<Rightarrow> GithubRepo" where
  "originRepo env = \<lparr>owner = originOwner env, name = upstreamName env\<rparr>"

definition cliBuildsRepo :: "env \<Rightarrow> GithubRepo" where
  "cliBuildsRepo env = \<lparr>owner = upstreamOwner env, name = CB_REPO_NAME\<rparr>"

text \<open>
  \<^verbatim>\<open>AIO_SCRIPT_RE = /^node \S+ ([\da-f]+)$/\<close>, applied with \<^verbatim>\<open>exec\<close>; the result is the
  first group. The text after \<^verbatim>\<open>node \<close> must be a non-empty run without white space,
  one space, and a non-empty run of lower-case hexadecimal digits up to the end. Neither
  run contains a space, so the space between them is the first one.
\<close>

definition isHexDigit :: "char \<Rightarrow> bool" where
  "isHexDigit c = (c \<in> set ''0123456789abcdef'')"

definition AIO_SCRIPT_RE :: "string \<Rightarrow> string option" where
  "AIO_SCRIPT_RE s =
     (if startsWith s ''node '' then
        (let rest = drop 5 s;
             arg = takeWhile (\<lambda>c. c \<noteq> CHR '' '') rest;
             tail = dropWhile (\<lambda>c. c \<noteq> CHR '' '') rest
         in if arg \<noteq> [] \<and> list_all (\<lambda>c. \<not> isWhiteSpace c) arg \<and> tail \<noteq> []
               \<and> tl tail \<noteq> [] \<and> list_all isHexDigit (tl tail)
            then Some (tl tail) else None)
      else None)"

text \<open>The calls to the repository-hosting client.\<close>

definition getFileContents :: "env \<Rightarrow> GithubRepo \<Rightarrow> string \<Rightarrow> string \<Rightarrow> string prog" where
  "getFileContents env r path ref = (\<lambda>h. (fileContents env h r path ref, h @ [GetFileContents r path ref]))"

definition getLatestSha :: "env \<Rightarrow> GithubRepo \<Rightarrow> string \<Rightarrow> string prog" where
  "getLatestSha env r branch = (\<lambda>h. (latestShaOf env h r branch, h @ [GetLatestSha r branch]))"

definition getAffectedFiles :: "env \<Rightarrow> GithubRepo \<Rightarrow> string \<Rightarrow> string \<Rightarrow> IFile list prog" where
  "getAffectedFiles env r a b = (\<lambda>h. (affectedFiles env h r a b, h @ [GetAffectedFiles r a b]))"

definition getPullRequests :: "env \<Rightarrow> GithubRepo \<Rightarrow> IPullRequestSearchParams \<Rightarrow> IPullRequest list prog" where
  "getPullRequests env r params = (\<lambda>h. (pullRequests env h r params, h @ [GetPullRequests r params]))"

definition createPullRequest :: "env \<Rightarrow> GithubRepo \<Rightarrow> string \<Rightarrow> string \<Rightarrow> string \<Rightarrow> IPullRequest prog" where
  "createPullRequest env r headRef base ttl =
     (\<lambda>h. (newPullRequest env h r headRef base ttl, h @ [CreatePullRequest r headRef base ttl]))"

text \<open>\<^verbatim>\<open>Map<string, IPullRequest[]>\<close>: the entries in insertion order, one per key.\<close>

fun mapSet :: "'k \<Rightarrow> 'v \<Rightarrow> ('k \<times> 'v) list \<Rightarrow> ('k \<times> 'v) list" where
  "mapSet k v [] = [(k, v)]"
| "mapSet k v ((k', v') # kvs) = (if k' = k then (k, v) # kvs else (k', v') # mapSet k v kvs)"

definition newMap :: "('k \<times> 'v) list \<Rightarrow> ('k \<times> 'v) list" where
  "newMap entries = foldl (\<lambda>m kv. mapSet (fst kv) (snd kv) m) [] entries"

definition mapKeys :: "('k \<times> 'v) list \<Rightarrow> 'k list" where
  "mapKeys m = map fst m"

definition mapValues :: "('k \<times> 'v) list \<Rightarrow> 'v list" where
  "mapValues m = map snd m"

text \<open>Sha equivalence.
  \<^verbatim>\<open>
  private shasMatch(sha1: string, sha2: string): boolean {
    return sha1.startsWith(sha2) || sha2.startsWith(sha1);
  }
  \<close>
\<close>

definition shasMatch :: "string \<Rightarrow> string \<Rightarrow> bool" where
  "shasMatch sha1 sha2 = (startsWith sha1 sha2 \<or> startsWith sha2 sha1)"

record IUpgradeCheckResults =
  currentSha :: string
  latestSha :: string
  needsUpgrade :: bool

text \<open>\<^verbatim>\<open>ignoreError\<close>: the error of \<open>fn\<close> is passed to \<^verbatim>\<open>logger.warn\<close> and not thrown.\<close>

definition ignoreError :: "'a prog \<Rightarrow> unit prog" where
  "ignoreError fn = tryCatch (thenE fn (returnE ())) (\<lambda>err. logWarn err)"

definition stringifyError :: "env \<Rightarrow> error \<Rightarrow> string" where
  "stringifyError env err = (if stack env err \<noteq> [] then stack env err else message err)"

definition codeBlock :: "string \<Rightarrow> string \<Rightarrow> string" where
  "codeBlock header code = ''**'' @ header @ '':**'' @ NL @ ''```'' @ NL @ code @ NL @ ''```'' @ NL"

definition reportError :: "env \<Rightarrow> string \<Rightarrow> error \<Rightarrow> unit prog" where
  "reportError env action err =
     (if \<not> REPORT_ERRORS env then returnE ()
      else
        thenE (logInfo (''  Reporting error while '' @ action @ ''.''))
          (\<lambda>h.
            (let ttl = ''['' @ LOCAL_BRANCH_PREFIX @ ''] Error while '' @ action;
                 body = codeBlock ''Error'' (stringifyError env err) @ NL @ ''##'' @ NL
                          @ codeBlock ''Logs'' (joinWith NL (getLogs env h));
                 thisRepo = \<lparr>owner = ownOriginOwner env, name = ownOriginName env\<rparr>
             in perform env (CreateIssue thisRepo ttl body) h)))"

definition retrieveShaFromAio :: "env \<Rightarrow> string \<Rightarrow> string prog" where
  "retrieveShaFromAio env branch =
     (let source = slug env (upstreamRepo env) @ ''/'' @ AIO_PKG_PATH @ ''#'' @ branch in
      thenE (logInfo (''  Extracting the current SHA for cli sources from '' @ SQ @ source @ SQ @ ''.''))
        (bindE (getFileContents env (upstreamRepo env) AIO_PKG_PATH branch) (\<lambda>pkgJson.
          (case jsonScripts env pkgJson of
             Inl e \<Rightarrow> throwE e
           | Inr scripts \<Rightarrow>
               (let cliSrcScript = scripts AIO_SCRIPT_NAME;
                    cliSrcShaMatch =
                      AIO_SCRIPT_RE (case cliSrcScript of None \<Rightarrow> ''undefined'' | Some s \<Rightarrow> s)
                in if cliSrcScript = None \<or> cliSrcScript = Some [] \<or> cliSrcShaMatch = None
                   then throwE (Error
                     (''Unable to extract the SHA for cli sources from '' @ SQ @ source @ SQ @ ''.'' @ NL
                      @ ''The '' @ SQ @ AIO_SCRIPT_NAME @ SQ @ '' script is missing or has unexpected format.''))
                   else returnE (the cliSrcShaMatch))))))"

definition retrieveShaFromCliBuilds :: "env \<Rightarrow> string \<Rightarrow> string prog" where
  "retrieveShaFromCliBuilds env branch =
     (let source = slug env (cliBuildsRepo env) @ ''#'' @ branch in
      thenE (logInfo (''  Extracting the latest SHA for cli sources from '' @ SQ @ source @ SQ @ ''.''))
        (bindE (getLatestSha env (cliBuildsRepo env) branch) (\<lambda>cliSrcSha.
          if cliSrcSha = []
          then throwE (Error
            (''Unable to extract the SHA for cli sources from '' @ SQ @ source @ SQ @ ''.'' @ NL
             @ ''The SHA is empty.''))
          else returnE (take 9 cliSrcSha))))"

text \<open>
  \<^verbatim>\<open>checkNeedsUpgrade\<close>, lines 119 to 127: the decision once both Shas are known.
\<close>

definition decideNeedsUpgrade :: "env \<Rightarrow> string \<Rightarrow> string \<Rightarrow> IUpgradeCheckResults prog" where
  "decideNeedsUpgrade env cur lat =
     (if \<not> shasMatch cur lat
      then bindE (getAffectedFiles env (cliBuildsRepo env) cur lat) (\<lambda>files.
             (let didHelpChange = list_ex (\<lambda>file. startsWith (filename file) ''help/'') files
              in returnE \<lparr>currentSha = cur, latestSha = lat, needsUpgrade = didHelpChange\<rparr>))
      else returnE \<lparr>currentSha = cur, latestSha = lat, needsUpgrade = False\<rparr>)"

definition checkNeedsUpgrade :: "env \<Rightarrow> string \<Rightarrow> IUpgradeCheckResults prog" where
  "checkNeedsUpgrade env branch =
     bindE (retrieveShaFromAio env branch) (\<lambda>cur.
       bindE (retrieveShaFromCliBuilds env branch) (\<lambda>lat.
         decideNeedsUpgrade env cur lat))"

definition cleanupObsoleteBranches :: "env \<Rightarrow> GitRepo \<Rightarrow> string list \<Rightarrow> string list \<Rightarrow> unit prog" where
  "cleanupObsoleteBranches env localRepo branches branchesWithOpenPrs =
     (let branchesWithoutOpenPrs = filter (\<lambda>branch. branch \<notin> set branchesWithOpenPrs) branches
      in forEachE (\<lambda>branch. deleteRemoteBranch env localRepo ORIGIN branch) branchesWithoutOpenPrs)"

definition commentOnSupercededPrs :: "env \<Rightarrow> IPullRequest list \<Rightarrow> IPullRequest \<Rightarrow> unit prog" where
  "commentOnSupercededPrs env supercededPrs newPr =
     (let supercededComment = ''Superceded by #'' @ showNat (number newPr) @ ''.''
      in thenE (promiseAll (\<lambda>pr. perform env (Comment (upstreamRepo env) (number pr) supercededComment))
                  supercededPrs)
           (returnE ()))"

definition commitAndPush :: "env \<Rightarrow> GitRepo \<Rightarrow> string \<Rightarrow> unit prog" where
  "commitAndPush env localRepo commitMsg =
     thenE (logInfo (''  Commiting changes and pushing to '' @ SQ @ ORIGIN @ SQ @ ''.''))
       (thenE (commit env localRepo commitMsg [(''all'', Flag True)])
         (thenE (fetch env localRepo ORIGIN (FetchOpts [(''unshallow'', Flag True)]))
           (push env localRepo ORIGIN (PushOpts [(''force'', Flag True)]))))"

definition createLocalBranch :: "env \<Rightarrow> GitRepo \<Rightarrow> string \<Rightarrow> string \<Rightarrow> unit prog" where
  "createLocalBranch env localRepo localBranch branch =
     thenE (logInfo (''  Creating local branch '' @ SQ @ localBranch @ SQ @ '' from '' @ SQ
                      @ slug env (upstreamRepo env) @ ''#'' @ branch @ SQ @ ''.''))
       (thenE (fetch env localRepo UPSTREAM (FetchBranch branch [(''depth'', Str ''1'')]))
         (checkout env localRepo ''FETCH_HEAD'' [(''b'', Str localBranch)]))"

text \<open>
  \<^verbatim>\<open>getOpenPrsPerBranch\<close>. The list of answers is as long as the list of branches, so
  pairing the two lists is the indexed access \<^verbatim>\<open>relevantPrsForBracnhes[i]\<close>.
\<close>

definition getOpenPrsPerBranch :: "env \<Rightarrow> string list \<Rightarrow> (string \<times> IPullRequest list) list prog" where
  "getOpenPrsPerBranch env branches =
     bindE (promiseAll (\<lambda>searchParams. getPullRequests env (upstreamRepo env) searchParams)
              (map (\<lambda>branch. \<lparr>head = owner (originRepo env) @ '':'' @ branch, searchState = ''all''\<rparr>)
                 branches))
       (\<lambda>prsForBranches.
          (let relevantPrsForBracnhes =
                 map (\<lambda>prsForBranch. filter (\<lambda>pr. startsWith (title pr) COMMIT_MESSAGE_PREFIX) prsForBranch)
                   prsForBranches;
               entries =
                 filter (\<lambda>entry. length (snd entry) > 0)
                   (map (\<lambda>(branch, prs). (branch, filter (\<lambda>pr. state pr = ''open'') prs))
                      (zip branches relevantPrsForBracnhes))
           in returnE (newMap entries)))"

definition initLocalRepo :: "env \<Rightarrow> GitRepo prog" where
  "initLocalRepo env =
     (let localRepoDir = pathJoin env (tmpdir env) (name (originRepo env)) in
      thenE (logInfo (''  Initializing local '' @ SQ @ slug env (originRepo env) @ SQ @ '' copy in '' @ SQ
                       @ localRepoDir @ SQ @ ''.''))
       (thenE (perform env (ShRm ''-rf'' localRepoDir))
       (thenE (perform env (ShMkdir ''-p'' localRepoDir))
       (let localRepo = \<lparr>directory = localRepoDir, destroyed = False\<rparr> in
        thenE (init env localRepo [])
        (thenE (addRemote env localRepo ORIGIN (url env (originRepo env)))
        (thenE (addRemote env localRepo UPSTREAM (url env (upstreamRepo env)))
        (thenE
          (if CI env then
             thenE (logInfo ''  Configuring local git repo on CI (user.name, user.email, credentials).'')
             (thenE (perform env (WriteFileSync (CREDENTIALS_PATH env) (''https://'' @ GH_TOKEN env @ '':@github.com'')))
             (thenE (perform env (ShChmod ''go-rwx'' (CREDENTIALS_PATH env)))
             (thenE (config env localRepo ''credential.helper'' (''\"store --file='' @ CREDENTIALS_PATH env @ ''\"''))
             (thenE (config env localRepo ''user.name'' (''\"'' @ userName env @ ''\"''))
                    (config env localRepo ''user.email'' (''\"'' @ userEmail env @ ''\"''))))))
           else returnE ())
          (returnE localRepo))))))))"

definition makeChanges :: "env \<Rightarrow> GitRepo \<Rightarrow> string \<Rightarrow> string \<Rightarrow> unit prog" where
  "makeChanges env localRepo cur lat =
     thenE (logInfo (''  Changing '' @ SQ @ cur @ SQ @ '' to '' @ SQ @ lat @ SQ @ '' in '' @ SQ @ AIO_PKG_PATH @ SQ @ ''.''))
       (perform env (ShSed ''-i'' cur lat (pathJoin env (directory localRepo) AIO_PKG_PATH)))"

definition submitPullRequest :: "env \<Rightarrow> string \<Rightarrow> string \<Rightarrow> string \<Rightarrow> IPullRequest prog" where
  "submitPullRequest env originBranch upstreamBranch ttl =
     (let src = slug env (originRepo env) @ ''#'' @ originBranch;
          dst = slug env (upstreamRepo env) @ ''#'' @ upstreamBranch in
      thenE (logInfo (''  Submitting pull request from '' @ SQ @ src @ SQ @ '' to '' @ SQ @ dst @ SQ @ ''.''))
        (let headRef = owner (originRepo env) @ '':'' @ originBranch in
         bindE (createPullRequest env (upstreamRepo env) headRef upstreamBranch ttl) (\<lambda>pr.
           thenE (ignoreError (perform env (AddLabels (upstreamRepo env) (number pr) PR_LABELS)))
             (returnE pr))))"

text \<open>\<^verbatim>\<open>checkAndUpgrade\<close>, line 86 and line 87.\<close>

definition supercededPrsOf :: "(string \<times> IPullRequest list) list \<Rightarrow> IPullRequest list" where
  "supercededPrsOf openPrsPerBranch = foldl (\<lambda>aggr prs. aggr @ prs) [] (mapValues openPrsPerBranch)"

definition commitMsgOf :: "string \<Rightarrow> IPullRequest list \<Rightarrow> string" where
  "commitMsgOf commitMsgSubject supercededPrs =
     trim (commitMsgSubject @ NL @ NL
           @ joinWith NL (map (\<lambda>pr. ''Closes #'' @ showNat (number pr)) supercededPrs))"

text \<open>\<^verbatim>\<open>checkAndUpgrade\<close>, lines 81 to 98: make the changes and submit the pull request.\<close>

definition submitUpgrade ::
  "env \<Rightarrow> string \<Rightarrow> string \<Rightarrow> string \<Rightarrow> GitRepo \<Rightarrow> (string \<times> IPullRequest list) list \<Rightarrow> unit prog" where
  "submitUpgrade env branch cur lat localRepo openPrsPerBranch =
     (let localBranch = LOCAL_BRANCH_PREFIX @ ''--'' @ branch @ ''--'' @ lat;
          commitMsgSubject = COMMIT_MESSAGE_PREFIX @ lat in
      thenE (createLocalBranch env localRepo localBranch branch)
      (thenE (makeChanges env localRepo cur lat)
      (let supercededPrs = supercededPrsOf openPrsPerBranch;
           commitMsg = commitMsgOf commitMsgSubject supercededPrs in
       thenE (commitAndPush env localRepo commitMsg)
       (bindE (submitPullRequest env localBranch branch commitMsgSubject) (\<lambda>newPr.
         thenE (ignoreError (commentOnSupercededPrs env supercededPrs newPr))
         (thenE (ignoreError (destroy env localRepo))
         (logInfo (''Upgrade completed successfully '' @ [CHR 0x5C] @ ''o/ | PR: #'' @ showNat (number newPr)
                   @ '' ('' @ html_url newPr @ '')''))))))))"

text \<open>\<^verbatim>\<open>checkAndUpgrade\<close>, lines 73 to 98: the check for an existing pull request, and the rest.\<close>

definition checkExistingPr ::
  "env \<Rightarrow> string \<Rightarrow> string \<Rightarrow> string \<Rightarrow> GitRepo \<Rightarrow> (string \<times> IPullRequest list) list \<Rightarrow> unit prog" where
  "checkExistingPr env branch cur lat localRepo openPrsPerBranch =
     (let localBranch = LOCAL_BRANCH_PREFIX @ ''--'' @ branch @ ''--'' @ lat;
          relevantBranchesWithOpenPrs = mapKeys openPrsPerBranch in
      if localBranch \<in> set relevantBranchesWithOpenPrs then
        (let existingPrs = (case map_of openPrsPerBranch localBranch of Some prs \<Rightarrow> prs | None \<Rightarrow> []);
             existingPrsStr =
               joinWith NL (map (\<lambda>pr. ''  #'' @ showNat (number pr) @ '' ('' @ html_url pr @ '')'') existingPrs)
         in logInfo (''PR for latest SHA ('' @ lat @ '') already exists:'' @ NL @ existingPrsStr))
      else submitUpgrade env branch cur lat localRepo openPrsPerBranch)"

text \<open>\<^verbatim>\<open>checkAndUpgrade\<close>, lines 58 to 98: the upgrade once it is known to be needed.\<close>

definition upgrade :: "env \<Rightarrow> string \<Rightarrow> string \<Rightarrow> string \<Rightarrow> unit prog" where
  "upgrade env branch cur lat =
     thenE (logInfo (''Upgrade needed: '' @ cur @ '' --> '' @ lat))
       (bindE (initLocalRepo env) (\<lambda>localRepo.
         bindE (getRemoteBranches env localRepo ORIGIN) (\<lambda>remoteBranches.
           (let relevantBranches =
                  filter (\<lambda>branchName. startsWith branchName LOCAL_BRANCH_PREFIX) remoteBranches in
            bindE (getOpenPrsPerBranch env relevantBranches) (\<lambda>openPrsPerBranch.
              (let relevantBranchesWithOpenPrs = mapKeys openPrsPerBranch in
               thenE (cleanupObsoleteBranches env localRepo relevantBranches relevantBranchesWithOpenPrs)
                 (checkExistingPr env branch cur lat localRepo openPrsPerBranch)))))))"

text \<open>The body of the \<^verbatim>\<open>try\<close> block of \<^verbatim>\<open>checkAndUpgrade\<close>, lines 46 to 98.\<close>

definition checkAndUpgradeBody :: "env \<Rightarrow> string \<Rightarrow> unit prog" where
  "checkAndUpgradeBody env branch =
     thenE (logInfo ''Checking and upgrading cli command docs sources for angular.io.'')
       (bindE (checkNeedsUpgrade env branch) (\<lambda>res.
          if \<not> needsUpgrade res then
            (let reason =
                   (if shasMatch (currentSha res) (latestSha res)
                    then ''Already using the latest SHA ('' @ currentSha res @ '').''
                    else ''No '' @ SQ @ ''help/**'' @ SQ @ '' files changed between '' @ currentSha res
                         @ '' and '' @ latestSha res @ ''.'')
             in logInfo (''No upgrade needed. '' @ reason))
          else upgrade env branch (currentSha res) (latestSha res)))"

text \<open>An omitted \<^verbatim>\<open>branch\<close> is \<^verbatim>\<open>REPO_INFO.ng.defaultBranch\<close>.\<close>

definition branchOrDefault :: "env \<Rightarrow> string option \<Rightarrow> string" where
  "branchOrDefault env branchArg = (case branchArg of None \<Rightarrow> defaultBranch env | Some b \<Rightarrow> b)"

definition checkAndUpgrade :: "env \<Rightarrow> string option \<Rightarrow> unit prog" where
  "checkAndUpgrade env branchArg =
     (let branch = branchOrDefault env branchArg in
      tryCatch (checkAndUpgradeBody env branch)
        (\<lambda>err. thenE (ignoreError (perform env (ShRm ''-f'' (CREDENTIALS_PATH env))))
                 (thenE (ignoreError (reportError env ''checking and upgrading'' err))
                   (throwE err))))"

definition checkOnly :: "env \<Rightarrow> string option \<Rightarrow> bool prog" where
  "checkOnly env branchArg =
     (let branch = branchOrDefault env branchArg in
      tryCatch
        (thenE (logInfo ''Checking cli command docs sources for angular.io.'')
          (bindE (checkNeedsUpgrade env branch) (\<lambda>res. returnE (\<not> needsUpgrade res))))
        (\<lambda>err. thenE (ignoreError (reportError env ''checking only'' err)) (throwE err)))"

section \<open>An example environment\<close>

text \<open>
  A run against a fork with two stale automation branches: \<open>old1\<close> with the open pull
  request 10 and \<open>old2\<close> without one. The recorded Sha is \<open>aaa1111\<close>, the latest
  one \<open>bbb2222\<close>, and a file under \<open>help/\<close> has changed. Every call succeeds.
\<close>

definition demoEnv :: env where
  "demoEnv = \<lparr>
     upstreamOwner = ''angular'', upstreamName = ''angular'', originOwner = ''ngbot'',
     defaultBranch = ''master'', ownOriginOwner = ''gkalpak'', ownOriginName = ''ngx-deps-upgrade'',
     GH_TOKEN = ''token'', userName = ''bot'', userEmail = ''bot@example.com'',
     CI = False, tmpdir = ''/tmp'',
     pathJoin = (\<lambda>a b. a @ ''/'' @ b),
     slug = (\<lambda>r. owner r @ ''/'' @ name r),
     url = (\<lambda>r. ''https://github.com/'' @ owner r @ ''/'' @ name r @ ''.git''),
     stack = (\<lambda>e. []),
     getLogs = (\<lambda>h. []),
     jsonScripts = (\<lambda>s. Inr (\<lambda>k. if k = AIO_SCRIPT_NAME then Some ''node ./tools/extract aaa1111'' else None)),
     failure = (\<lambda>h ev. None),
     execStdout = (\<lambda>h cmd.
        if cmd = ''git branch --remote''
        then Inr (''  origin/master'' @ NL @ ''  origin/upgrade-cli-src--master--old1'' @ NL
                  @ ''  origin/upgrade-cli-src--master--old2'' @ NL)
        else if cmd = ''git rev-parse --abbrev-ref HEAD''
        then Inr (''upgrade-cli-src--master--bbb2222'' @ NL)
        else Inr []),
     fileContents = (\<lambda>h r p b. Inr ''{}''),
     latestShaOf = (\<lambda>h r b. Inr ''bbb2222''),
     affectedFiles = (\<lambda>h r a b. Inr [\<lparr>filename = ''help/foo.md''\<rparr>]),
     pullRequests = (\<lambda>h r params.
        if head params = ''ngbot:upgrade-cli-src--master--old1''
        then Inr [\<lparr>number = 10, html_url = ''https://github.com/angular/angular/pull/10'',
                   title = COMMIT_MESSAGE_PREFIX @ ''old1'', state = ''open''\<rparr>]
        else Inr []),
     newPullRequest = (\<lambda>h r hd b t.
        Inr \<lparr>number = 11, html_url = ''https://github.com/angular/angular/pull/11'', title = t, state = ''open''\<rparr>)
   \<rparr>"

definition demoRepo :: GitRepo where
  "demoRepo = \<lparr>directory = ''/tmp/angular'', destroyed = False\<rparr>"

text \<open>The same, except that the latest Sha extends the recorded one.\<close>

definition matchEnv :: env where
  "matchEnv = demoEnv\<lparr>latestShaOf := (\<lambda>h r b. Inr ''aaa1111222333'')\<rparr>"

section \<open>Observing a run\<close>

text \<open>
  \<open>emits p P\<close>: whatever the events so far, \<open>p\<close> only adds events, and each event it
  adds satisfies \<open>P\<close>.
\<close>

definition emits :: "'a prog \<Rightarrow> (event \<Rightarrow> bool) \<Rightarrow> bool" where
  "emits p P = (\<forall>h. \<exists>evs. snd (p h) = h @ evs \<and> list_all P evs)"

text \<open>The commands passed to \<^verbatim>\<open>sh.exec\<close>, in order.\<close>

fun execCmds :: "event list \<Rightarrow> string list" where
  "execCmds [] = []"
| "execCmds (ShExec c # es) = c # execCmds es"
| "execCmds (e # es) = execCmds es"

text \<open>
  The events of \<^verbatim>\<open>execInRepo\<close> calls whose commands satisfy \<open>Q\<close>: the directory change
  and its undoing, the debug lines, and the commands themselves.
\<close>

fun gitEvents :: "(string \<Rightarrow> bool) \<Rightarrow> event \<Rightarrow> bool" where
  "gitEvents Q (ShPushd _ _) = True"
| "gitEvents Q (ShPopd _) = True"
| "gitEvents Q (LogDebug _) = True"
| "gitEvents Q (ShExec c) = Q c"
| "gitEvents Q _ = False"

text \<open>A condition on the commands; every other event is allowed.\<close>

fun onExec :: "(string \<Rightarrow> bool) \<Rightarrow> event \<Rightarrow> bool" where
  "onExec Q (ShExec c) = Q c"
| "onExec Q _ = True"

text \<open>
  The commands of new work: fetching the upstream branch, creating the local branch, the
  commit, and a push that does not delete a branch of \<open>origin\<close> (one whose source is not
  empty).
\<close>

definition isNewWorkCmd :: "string \<Rightarrow> bool" where
  "isNewWorkCmd c =
     (startsWith c ''git fetch upstream'' \<or> startsWith c ''git checkout''
      \<or> startsWith c ''git commit''
      \<or> (startsWith c ''git push'' \<and> \<not> startsWith c ''git push origin :''))"

text \<open>
  The events of new work: those commands, the change of the tracked file, and the creation,
  labelling and commenting of pull requests.
\<close>

fun isNewWork :: "event \<Rightarrow> bool" where
  "isNewWork (ShExec c) = isNewWorkCmd c"
| "isNewWork (ShSed _ _ _ _) = True"
| "isNewWork (CreatePullRequest _ _ _ _) = True"
| "isNewWork (AddLabels _ _ _) = True"
| "isNewWork (Comment _ _ _) = True"
| "isNewWork _ = False"

text \<open>The report of line 77, by which the check for an existing pull request shows.\<close>

fun isExistingPrReport :: "event \<Rightarrow> bool" where
  "isExistingPrReport (LogInfo s) = startsWith s ''PR for latest SHA (''"
| "isExistingPrReport _ = False"

text \<open>A prefix that \<^verbatim>\<open>trim\<close> leaves in place.\<close>

definition solidPrefix :: "string \<Rightarrow> bool" where
  "solidPrefix p = (p \<noteq> [] \<and> \<not> isWhiteSpace (hd p) \<and> \<not> isWhiteSpace (last p))"

text \<open>The two filters of \<^verbatim>\<open>getOpenPrsPerBranch\<close> on the answer for one branch.\<close>

definition openRelevantPrs :: "IPullRequest list \<Rightarrow> IPullRequest list" where
  "openRelevantPrs prs =
     filter (\<lambda>pr. state pr = ''open'') (filter (\<lambda>pr. startsWith (title pr) COMMIT_MESSAGE_PREFIX) prs)"

text \<open>The command that deletes a branch of \<open>origin\<close>, and the command of the commit.\<close>

definition deleteCmd :: "string \<Rightarrow> string" where
  "deleteCmd branch = trim (''git push origin :'' @ branch)"

definition commitCmd :: "string \<Rightarrow> string" where
  "commitCmd msg =
     withOptions ''git commit''
       [(''all'', Flag True), (''message'', Strs (map (\<lambda>m. ''\"'' @ m @ ''\"'') (splitLines msg)))]"

text \<open>A condition on events that the directory changes and debug lines of the adapter meet.\<close>

definition allowsGit :: "(event \<Rightarrow> bool) \<Rightarrow> bool" where
  "allowsGit P = (\<forall>a b. P (ShPushd a b) \<and> P (ShPopd a) \<and> P (LogDebug a))"

text \<open>
  The hosting client answers every query with the open pull request 10, so that it is
  listed for both stale branches.
\<close>

definition dupEnv :: env where
  "dupEnv = demoEnv\<lparr>pullRequests := (\<lambda>h r params.
     Inr [\<lparr>number = 10, html_url = ''https://github.com/angular/angular/pull/10'',
           title = COMMIT_MESSAGE_PREFIX @ ''old1'', state = ''open''\<rparr>])\<rparr>"

text \<open>The map of open pull requests in the example: the branch \<open>old1\<close> with pull request 10.\<close>

definition demoMap :: "(string \<times> IPullRequest list) list" where
  "demoMap = [(''upgrade-cli-src--master--old1'',
               [\<lparr>number = 10, html_url = ''https://github.com/angular/angular/pull/10'',
                 title = COMMIT_MESSAGE_PREFIX @ ''old1'', state = ''open''\<rparr>])]"

section \<open>The steps of \<open>checkAndUpgrade\<close>, one by one\<close>

text \<open>
  To speak about a run that has come to a certain line, its earlier steps are given names.
  \<open>detectUpgrade\<close> is lines 46 to 48, \<open>discoverBranches\<close> lines 58 to 69 (it returns the
  local repository, the relevant branches and the map of open pull requests) and
  \<open>openPullRequest\<close> lines 81 to 89 (it returns the new pull request).
\<close>

definition detectUpgrade :: "env \<Rightarrow> string \<Rightarrow> IUpgradeCheckResults prog" where
  "detectUpgrade env branch =
     thenE (logInfo ''Checking and upgrading cli command docs sources for angular.io.'')
       (checkNeedsUpgrade env branch)"

definition discoverBranches ::
  "env \<Rightarrow> string \<Rightarrow> string \<Rightarrow> (GitRepo \<times> string list \<times> (string \<times> IPullRequest list) list) prog" where
  "discoverBranches env cur lat =
     thenE (logInfo (''Upgrade needed: '' @ cur @ '' --> '' @ lat))
       (bindE (initLocalRepo env) (\<lambda>localRepo.
         bindE (getRemoteBranches env localRepo ORIGIN) (\<lambda>remoteBranches.
           (let relevantBranches =
                  filter (\<lambda>branchName. startsWith branchName LOCAL_BRANCH_PREFIX) remoteBranches in
            bindE (getOpenPrsPerBranch env relevantBranches) (\<lambda>openPrsPerBranch.
              returnE (localRepo, relevantBranches, openPrsPerBranch))))))"


text \<open>The branches that \<^verbatim>\<open>cleanupObsoleteBranches\<close> deletes.\<close>

definition obsoleteBranches :: "string list \<Rightarrow> (string \<times> IPullRequest list) list \<Rightarrow> string list" where
  "obsoleteBranches branches openPrsPerBranch =
     filter (\<lambda>branch. branch \<notin> set (mapKeys openPrsPerBranch)) branches"

text \<open>
  The events of the steps before the clean-up and of the \<^verbatim>\<open>catch\<close> block: log lines other
  than the report of line 77, file system calls, queries to the hosting client, the filing
  of an issue, and commands that are neither new work nor a push.
\<close>

fun setupEvent :: "event \<Rightarrow> bool" where
  "setupEvent (LogInfo s) = (\<not> startsWith s ''PR for latest SHA ('')"
| "setupEvent (ShExec c) = (\<not> isNewWorkCmd c \<and> \<not> startsWith c ''git push'')"
| "setupEvent (ShSed _ _ _ _) = False"
| "setupEvent (CreatePullRequest _ _ _ _) = False"
| "setupEvent (AddLabels _ _ _) = False"
| "setupEvent (Comment _ _ _) = False"
| "setupEvent _ = True"

text \<open>\<open>quiet\<close>: neither new work nor the report of an existing pull request.\<close>

definition quiet :: "event \<Rightarrow> bool" where
  "quiet e = (\<not> isNewWork e \<and> \<not> isExistingPrReport e)"

section \<open>More example environments\<close>

text \<open>
  The fork has the stale branch \<open>old2\<close> without a pull request, and the branch for the
  latest Sha with the open pull request 12.
\<close>

definition existsEnv :: env where
  "existsEnv = demoEnv\<lparr>
     execStdout := (\<lambda>h cmd.
        if cmd = ''git branch --remote''
        then Inr (''  origin/master'' @ NL @ ''  origin/upgrade-cli-src--master--old2'' @ NL
                  @ ''  origin/upgrade-cli-src--master--bbb2222'' @ NL)
        else Inr []),
     pullRequests := (\<lambda>h r params.
        if head params = ''ngbot:upgrade-cli-src--master--bbb2222''
        then Inr [\<lparr>number = 12, html_url = ''https://github.com/angular/angular/pull/12'',
                   title = COMMIT_MESSAGE_PREFIX @ ''bbb2222'', state = ''open''\<rparr>]
        else Inr [])\<rparr>"

text \<open>The map of open pull requests in that run.\<close>

definition existsMap :: "(string \<times> IPullRequest list) list" where
  "existsMap = [(''upgrade-cli-src--master--bbb2222'',
                 [\<lparr>number = 12, html_url = ''https://github.com/angular/angular/pull/12'',
                   title = COMMIT_MESSAGE_PREFIX @ ''bbb2222'', state = ''open''\<rparr>])]"



text \<open>
  The fork has the stale branches \<open>old1\<close> (with the open pull request 10), \<open>old2\<close> and
  \<open>old3\<close>; the command that deletes \<open>old2\<close> fails.
\<close>

definition failEnv :: env where
  "failEnv = demoEnv\<lparr>
     execStdout := (\<lambda>h cmd.
        if cmd = ''git branch --remote''
        then Inr (''  origin/master'' @ NL @ ''  origin/upgrade-cli-src--master--old1'' @ NL
                  @ ''  origin/upgrade-cli-src--master--old2'' @ NL
                  @ ''  origin/upgrade-cli-src--master--old3'' @ NL)
        else if cmd = ''git push origin :upgrade-cli-src--master--old2''
        then Inl (Error ''remote rejected'')
        else if cmd = ''git rev-parse --abbrev-ref HEAD''
        then Inr (''upgrade-cli-src--master--bbb2222'' @ NL)
        else Inr [])\<rparr>"

text \<open>The errors passed to \<^verbatim>\<open>logger.warn\<close>, in order.\<close>

fun warnings :: "event list \<Rightarrow> error list" where
  "warnings [] = []"
| "warnings (LogWarn e # es) = e # warnings es"
| "warnings (e # es) = warnings es"

text \<open>
  As before with the stale branches \<open>old1\<close> (open pull request 10), \<open>old2\<close>, \<open>old3\<close>
  and \<open>old4\<close>; the command that deletes \<open>old3\<close> fails.
\<close>

definition failSecondEnv :: env where
  "failSecondEnv = demoEnv\<lparr>
     execStdout := (\<lambda>h cmd.
        if cmd = ''git branch --remote''
        then Inr (''  origin/master'' @ NL @ ''  origin/upgrade-cli-src--master--old1'' @ NL
                  @ ''  origin/upgrade-cli-src--master--old2'' @ NL
                  @ ''  origin/upgrade-cli-src--master--old3'' @ NL
                  @ ''  origin/upgrade-cli-src--master--old4'' @ NL)
        else if cmd = ''git push origin :upgrade-cli-src--master--old3''
        then Inl (Error ''remote rejected'')
        else Inr [])\<rparr>"

text \<open>
  The fork has the stale branch \<open>old2\<close> without a pull request and the branch for the
  latest Sha with the open pull request 12; the command that deletes \<open>old2\<close> fails.
\<close>

definition existsFailEnv :: env where
  "existsFailEnv = existsEnv\<lparr>
     execStdout := (\<lambda>h cmd.
        if cmd = ''git push origin :upgrade-cli-src--master--old2''
        then Inl (Error ''remote rejected'')
        else execStdout existsEnv h cmd)\<rparr>"

section \<open>Properties of Sha equivalence\<close>

lemma startsWith_refl: "startsWith s s"
  by (simp add: startsWith_def)


lemma startsWith_append: "startsWith (p @ r) p"
  by (simp add: startsWith_def)

lemma startsWith_iff: "startsWith s p \<longleftrightarrow> (\<exists>r. s = p @ r)"
proof
  assume "startsWith s p"
  then have "s = p @ drop (length p) s"
    by (metis append_take_drop_id startsWith_def)
  then show "\<exists>r. s = p @ r" ..
next
  assume "\<exists>r. s = p @ r"
  then show "startsWith s p" by (auto simp: startsWith_def)
qed

text \<open>
  C7: \<open>shasMatch\<close> is reflexive and symmetric on all strings; in particular it holds,
  in both argument orders, for a string and any extension of it (two strings of unequal
  length one of which is a prefix of the other).
\<close>

theorem shasMatch_refl_sym:
  "shasMatch a a \<and> shasMatch a b = shasMatch b a
     \<and> shasMatch p (p @ r) \<and> shasMatch (p @ r) p"
  by (auto simp: shasMatch_def startsWith_refl startsWith_append)

section \<open>Computations: basic facts\<close>

lemma returnE_apply [simp]: "returnE x h = (Inr x, h)"
  by (simp add: returnE_def)

lemma throwE_apply [simp]: "throwE e h = (Inl e, h)"
  by (simp add: throwE_def)

section \<open>The adapter after \<open>destroy\<close>\<close>

lemma execInRepo_destroyed:
  "destroyed repo \<Longrightarrow> execInRepo env repo cmd opts h = (Inl closedResourceError, h)"
  by (simp add: execInRepo_def)

lemma destroy_Inr_destroyed:
  "destroy env repo0 h0 = (Inr repo, h1) \<Longrightarrow> destroyed repo"
  by (auto simp: destroy_def thenE_def bindE_def perform_def split: if_splits option.splits)

text \<open>
  C8: once \<open>destroy\<close> has returned, every other operation of the same instance (in
  each of its argument shapes, at any later moment \<open>h\<close>) throws the closed-resource
  error and makes no call at all: the events are unchanged, so no command is executed.
\<close>

theorem closed_after_destroy:
  assumes "destroy env repo0 h0 = (Inr repo, h1)"
  shows "addRemote env repo nm u h = (Inl closedResourceError, h)
       \<and> fetch env repo remote fargs h = (Inl closedResourceError, h)
       \<and> checkout env repo ref opts h = (Inl closedResourceError, h)
       \<and> commit env repo msg opts h = (Inl closedResourceError, h)
       \<and> push env repo remote pargs h = (Inl closedResourceError, h)
       \<and> getRemoteBranches env repo remote h = (Inl closedResourceError, h)
       \<and> config env repo key val h = (Inl closedResourceError, h)
       \<and> init env repo opts h = (Inl closedResourceError, h)
       \<and> deleteRemoteBranch env repo remote branch h = (Inl closedResourceError, h)
       \<and> currentBranch env repo h = (Inl closedResourceError, h)"
proof -
  have d: "destroyed repo"
    using assms by (rule destroy_Inr_destroyed)
  have x: "\<And>c os k. execInRepo env repo c os k = (Inl closedResourceError, k)"
    using d by (rule execInRepo_destroyed)
  have cur: "currentBranch env repo h = (Inl closedResourceError, h)"
    by (simp add: currentBranch_def bindE_def x)
  have f: "\<And>a. fetch env repo remote a h = (Inl closedResourceError, h)"
  proof -
    fix a show "fetch env repo remote a h = (Inl closedResourceError, h)"
      by (cases a) (simp_all add: fetch_def thenE_def bindE_def x)
  qed
  have p: "\<And>a. push env repo remote a h = (Inl closedResourceError, h)"
  proof -
    fix a show "push env repo remote a h = (Inl closedResourceError, h)"
      by (cases a) (simp_all add: push_def thenE_def bindE_def x cur)
  qed
  show ?thesis
    by (simp add: addRemote_def checkout_def commit_def config_def init_def deleteRemoteBranch_def
        getRemoteBranches_def thenE_def bindE_def x cur f p)
qed

theorem closed_after_destroy_witness:
  "destroy demoEnv demoRepo [] = (Inr (demoRepo\<lparr>destroyed := True\<rparr>), [ShRm ''-rf'' ''/tmp/angular''])
   \<and> fetch demoEnv (demoRepo\<lparr>destroyed := True\<rparr>) ORIGIN (FetchOpts []) [ShRm ''-rf'' ''/tmp/angular'']
       = (Inl (Error ''Repository already destroyed.''), [ShRm ''-rf'' ''/tmp/angular''])
   \<and> push demoEnv (demoRepo\<lparr>destroyed := True\<rparr>) ORIGIN (PushOpts []) [ShRm ''-rf'' ''/tmp/angular'']
       = (Inl (Error ''Repository already destroyed.''), [ShRm ''-rf'' ''/tmp/angular''])"
proof -
  have d: "destroy demoEnv demoRepo [] = (Inr (demoRepo\<lparr>destroyed := True\<rparr>), [ShRm ''-rf'' ''/tmp/angular''])"
    by (simp add: destroy_def demoRepo_def demoEnv_def thenE_def bindE_def perform_def)
  show ?thesis
    using d closed_after_destroy [OF d] by (simp add: closedResourceError_def)
qed

text \<open>
  C10: \<open>destroy\<close> on an instance that is already destroyed returns normally, makes no
  call (nothing is removed again) and leaves the instance as it is, that is destroyed.
\<close>

theorem destroy_idempotent:
  assumes "destroyed repo"
  shows "destroy env repo h = (Inr repo, h)"
  using assms by (simp add: destroy_def)

theorem destroy_idempotent_witness:
  "destroyed (demoRepo\<lparr>destroyed := True\<rparr>)
   \<and> destroy demoEnv (demoRepo\<lparr>destroyed := True\<rparr>) [ShRm ''-rf'' ''/tmp/angular'']
       = (Inr (demoRepo\<lparr>destroyed := True\<rparr>), [ShRm ''-rf'' ''/tmp/angular''])"
  using destroy_idempotent [of "demoRepo\<lparr>destroyed := True\<rparr>" demoEnv "[ShRm ''-rf'' ''/tmp/angular'']"]
  by simp

section \<open>The upgrade-need detector\<close>


lemma logInfo_apply [simp]: "logInfo s h = (Inr (), h @ [LogInfo s])"
  by (simp add: logInfo_def)

lemma logWarn_apply [simp]: "logWarn e h = (Inr (), h @ [LogWarn e])"
  by (simp add: logWarn_def)

lemma logDebug_apply [simp]: "logDebug s h = (Inr (), h @ [LogDebug s])"
  by (simp add: logDebug_def)

lemma retrieveShaFromAio_events:
  "snd (retrieveShaFromAio env branch h) =
     h @ [LogInfo (''  Extracting the current SHA for cli sources from '' @ SQ
                   @ slug env (upstreamRepo env) @ ''/'' @ AIO_PKG_PATH @ ''#'' @ branch @ SQ @ ''.''),
          GetFileContents (upstreamRepo env) AIO_PKG_PATH branch]"
  by (simp add: retrieveShaFromAio_def Let_def thenE_def bindE_def getFileContents_def
      split: sum.splits prod.splits)

lemma retrieveShaFromCliBuilds_events:
  "snd (retrieveShaFromCliBuilds env branch h) =
     h @ [LogInfo (''  Extracting the latest SHA for cli sources from '' @ SQ
                   @ slug env (cliBuildsRepo env) @ ''#'' @ branch @ SQ @ ''.''),
          GetLatestSha (cliBuildsRepo env) branch]"
  by (simp add: retrieveShaFromCliBuilds_def Let_def thenE_def bindE_def getLatestSha_def
      split: sum.splits prod.splits)

lemma bindE_returns:
  assumes "bindE m f h = (Inr y, h')"
  shows "\<exists>x h1. m h = (Inr x, h1) \<and> f x h1 = (Inr y, h')"
  using assms by (auto simp: bindE_def split: prod.splits sum.splits)

lemma decideNeedsUpgrade_match:
  assumes "shasMatch cur lat"
  shows "decideNeedsUpgrade env cur lat h = (Inr \<lparr>currentSha = cur, latestSha = lat, needsUpgrade = False\<rparr>, h)"
  using assms by (simp add: decideNeedsUpgrade_def)

lemma decideNeedsUpgrade_differ:
  assumes "\<not> shasMatch cur lat" and "decideNeedsUpgrade env cur lat h = (Inr res, h')"
  shows "\<exists>files. affectedFiles env h (cliBuildsRepo env) cur lat = Inr files
           \<and> h' = h @ [GetAffectedFiles (cliBuildsRepo env) cur lat]
           \<and> res = \<lparr>currentSha = cur, latestSha = lat,
                    needsUpgrade = (\<exists>f \<in> set files. startsWith (filename f) ''help/'')\<rparr>"
  using assms
  by (auto simp: decideNeedsUpgrade_def bindE_def getAffectedFiles_def Let_def list_ex_iff
      split: sum.splits)

text \<open>
  C2: whenever \<open>checkNeedsUpgrade\<close> returns a result for a branch: if the two Shas match,
  \<open>needsUpgrade\<close> is false and the run has made no \<open>getAffectedFiles\<close> call; if they
  do not match, its last call is \<open>getAffectedFiles\<close> for the two Shas, and
  \<open>needsUpgrade\<close> is true exactly when one of the file names in the answer starts with
  \<open>help/\<close>.
\<close>

theorem checkNeedsUpgrade_iff:
  assumes "checkNeedsUpgrade env branch h = (Inr res, h')"
  shows "(shasMatch (currentSha res) (latestSha res) \<longrightarrow>
            \<not> needsUpgrade res \<and> (\<forall>r a b. GetAffectedFiles r a b \<notin> set (drop (length h) h')))
       \<and> (\<not> shasMatch (currentSha res) (latestSha res) \<longrightarrow>
            (\<exists>hq files.
               h' = hq @ [GetAffectedFiles (cliBuildsRepo env) (currentSha res) (latestSha res)]
               \<and> affectedFiles env hq (cliBuildsRepo env) (currentSha res) (latestSha res) = Inr files
               \<and> (needsUpgrade res \<longleftrightarrow> (\<exists>f \<in> set files. startsWith (filename f) ''help/''))))"
proof -
  from bindE_returns [OF assms [unfolded checkNeedsUpgrade_def]] obtain cur h1 where
    aio: "retrieveShaFromAio env branch h = (Inr cur, h1)" and
    rest: "bindE (retrieveShaFromCliBuilds env branch) (\<lambda>lat. decideNeedsUpgrade env cur lat) h1 = (Inr res, h')"
    by blast
  from bindE_returns [OF rest] obtain lat h2 where
    cb: "retrieveShaFromCliBuilds env branch h1 = (Inr lat, h2)" and
    dec: "decideNeedsUpgrade env cur lat h2 = (Inr res, h')"
    by blast
  have h1: "h1 = h @ [LogInfo (''  Extracting the current SHA for cli sources from '' @ SQ
                   @ slug env (upstreamRepo env) @ ''/'' @ AIO_PKG_PATH @ ''#'' @ branch @ SQ @ ''.''),
          GetFileContents (upstreamRepo env) AIO_PKG_PATH branch]"
    using retrieveShaFromAio_events [of env branch h] aio by simp
  have h2: "h2 = h1 @ [LogInfo (''  Extracting the latest SHA for cli sources from '' @ SQ
                   @ slug env (cliBuildsRepo env) @ ''#'' @ branch @ SQ @ ''.''),
          GetLatestSha (cliBuildsRepo env) branch]"
    using retrieveShaFromCliBuilds_events [of env branch h1] cb by simp
  show ?thesis
  proof (cases "shasMatch cur lat")
    case True
    with dec have "res = \<lparr>currentSha = cur, latestSha = lat, needsUpgrade = False\<rparr>" and "h' = h2"
      by (simp_all add: decideNeedsUpgrade_match)
    with True h1 h2 show ?thesis by simp
  next
    case False
    from decideNeedsUpgrade_differ [OF False dec] obtain files where
      "affectedFiles env h2 (cliBuildsRepo env) cur lat = Inr files"
      "h' = h2 @ [GetAffectedFiles (cliBuildsRepo env) cur lat]"
      "res = \<lparr>currentSha = cur, latestSha = lat,
               needsUpgrade = (\<exists>f \<in> set files. startsWith (filename f) ''help/'')\<rparr>"
      by blast
    with False show ?thesis by auto
  qed
qed

lemma demo_checkNeedsUpgrade:
  "checkNeedsUpgrade demoEnv ''master'' [] =
     (Inr \<lparr>currentSha = ''aaa1111'', latestSha = ''bbb2222'', needsUpgrade = True\<rparr>,
      [LogInfo (''  Extracting the current SHA for cli sources from '' @ SQ @ ''angular/angular/aio/package.json#master'' @ SQ @ ''.''),
       GetFileContents \<lparr>owner = ''angular'', name = ''angular''\<rparr> ''aio/package.json'' ''master'',
       LogInfo (''  Extracting the latest SHA for cli sources from '' @ SQ @ ''angular/cli-builds#master'' @ SQ @ ''.''),
       GetLatestSha \<lparr>owner = ''angular'', name = ''cli-builds''\<rparr> ''master'',
       GetAffectedFiles \<lparr>owner = ''angular'', name = ''cli-builds''\<rparr> ''aaa1111'' ''bbb2222''])"
  by code_simp


lemma match_checkNeedsUpgrade:
  "checkNeedsUpgrade matchEnv ''master'' [] =
     (Inr \<lparr>currentSha = ''aaa1111'', latestSha = ''aaa111122'', needsUpgrade = False\<rparr>,
      [LogInfo (''  Extracting the current SHA for cli sources from '' @ SQ @ ''angular/angular/aio/package.json#master'' @ SQ @ ''.''),
       GetFileContents \<lparr>owner = ''angular'', name = ''angular''\<rparr> ''aio/package.json'' ''master'',
       LogInfo (''  Extracting the latest SHA for cli sources from '' @ SQ @ ''angular/cli-builds#master'' @ SQ @ ''.''),
       GetLatestSha \<lparr>owner = ''angular'', name = ''cli-builds''\<rparr> ''master''])"
  by code_simp

theorem checkNeedsUpgrade_iff_witness:
  "fst (checkNeedsUpgrade demoEnv ''master'' [])
     = Inr \<lparr>currentSha = ''aaa1111'', latestSha = ''bbb2222'', needsUpgrade = True\<rparr>
   \<and> \<not> shasMatch ''aaa1111'' ''bbb2222''
   \<and> (\<exists>hq files.
         snd (checkNeedsUpgrade demoEnv ''master'' [])
           = hq @ [GetAffectedFiles (cliBuildsRepo demoEnv) ''aaa1111'' ''bbb2222'']
         \<and> affectedFiles demoEnv hq (cliBuildsRepo demoEnv) ''aaa1111'' ''bbb2222'' = Inr files
         \<and> (\<exists>f \<in> set files. startsWith (filename f) ''help/''))
   \<and> fst (checkNeedsUpgrade matchEnv ''master'' [])
     = Inr \<lparr>currentSha = ''aaa1111'', latestSha = ''aaa111122'', needsUpgrade = False\<rparr>
   \<and> shasMatch ''aaa1111'' ''aaa111122''
   \<and> (\<forall>r a b. GetAffectedFiles r a b \<notin> set (snd (checkNeedsUpgrade matchEnv ''master'' [])))"
  using checkNeedsUpgrade_iff [OF demo_checkNeedsUpgrade] checkNeedsUpgrade_iff [OF match_checkNeedsUpgrade]
  unfolding demo_checkNeedsUpgrade match_checkNeedsUpgrade
  by (simp add: shasMatch_def startsWith_def cliBuildsRepo_def CB_REPO_NAME_def demoEnv_def)

section \<open>Events added by a computation\<close>

lemma emitsI:
  assumes "\<And>h. \<exists>evs. snd (p h) = h @ evs \<and> list_all P evs"
  shows "emits p P"
  using assms by (simp add: emits_def)

lemma emitsD:
  assumes "emits p P" and "p h = (r, h')"
  shows "\<exists>evs. h' = h @ evs \<and> list_all P evs"
  using assms by (auto simp: emits_def dest!: spec [where x = h])

lemma emits_weaken:
  assumes "emits p P" and "\<And>e. P e \<Longrightarrow> Q e"
  shows "emits p Q"
proof (rule emitsI)
  fix h
  from assms(1) obtain evs where "snd (p h) = h @ evs" "list_all P evs"
    by (auto simp: emits_def)
  moreover from this assms(2) have "list_all Q evs"
    by (auto simp: list_all_iff)
  ultimately show "\<exists>evs. snd (p h) = h @ evs \<and> list_all Q evs" by blast
qed

lemma emits_returnE [simp]: "emits (returnE x) P"
  by (simp add: emits_def)

lemma emits_throwE [simp]: "emits (throwE e) P"
  by (simp add: emits_def)

lemma emits_logInfo: "P (LogInfo s) \<Longrightarrow> emits (logInfo s) P"
  by (simp add: emits_def)

lemma emits_logWarn: "P (LogWarn e) \<Longrightarrow> emits (logWarn e) P"
  by (simp add: emits_def)

lemma emits_logDebug: "P (LogDebug s) \<Longrightarrow> emits (logDebug s) P"
  by (simp add: emits_def)

lemma emits_perform: "P ev \<Longrightarrow> emits (perform env ev) P"
  by (simp add: emits_def perform_def)

lemma emits_bindE:
  assumes "emits m P" and "\<And>x. emits (f x) P"
  shows "emits (bindE m f) P"
proof (rule emitsI)
  fix h
  obtain r h1 where m: "m h = (r, h1)" by (cases "m h")
  from emitsD [OF assms(1) m] obtain evs where evs: "h1 = h @ evs" "list_all P evs" by blast
  show "\<exists>evs. snd (bindE m f h) = h @ evs \<and> list_all P evs"
  proof (cases r)
    case (Inl e)
    with m evs show ?thesis by (auto simp: bindE_def)
  next
    case (Inr x)
    obtain r2 h2 where f: "f x h1 = (r2, h2)" by (cases "f x h1")
    from emitsD [OF assms(2) f] obtain evs2 where "h2 = h1 @ evs2" "list_all P evs2" by blast
    with Inr m evs f show ?thesis by (auto simp: bindE_def)
  qed
qed

lemma emits_thenE:
  assumes "emits m P" and "emits n P"
  shows "emits (thenE m n) P"
  unfolding thenE_def using assms by (intro emits_bindE)

lemma emits_tryCatch:
  assumes "emits m P" and "\<And>e. emits (handler e) P"
  shows "emits (tryCatch m handler) P"
proof (rule emitsI)
  fix h
  obtain r h1 where m: "m h = (r, h1)" by (cases "m h")
  from emitsD [OF assms(1) m] obtain evs where evs: "h1 = h @ evs" "list_all P evs" by blast
  show "\<exists>evs. snd (tryCatch m handler h) = h @ evs \<and> list_all P evs"
  proof (cases r)
    case (Inr x)
    with m evs show ?thesis by (auto simp: tryCatch_def)
  next
    case (Inl e)
    obtain r2 h2 where f: "handler e h1 = (r2, h2)" by (cases "handler e h1")
    from emitsD [OF assms(2) f] obtain evs2 where "h2 = h1 @ evs2" "list_all P evs2" by blast
    with Inl m evs f show ?thesis by (auto simp: tryCatch_def)
  qed
qed

lemma emits_tryFinally:
  assumes "emits m P" and "emits fin P"
  shows "emits (tryFinally m fin) P"
proof (rule emitsI)
  fix h
  obtain r h1 where m: "m h = (r, h1)" by (cases "m h")
  from emitsD [OF assms(1) m] obtain evs where evs: "h1 = h @ evs" "list_all P evs" by blast
  obtain r2 h2 where f: "fin h1 = (r2, h2)" by (cases "fin h1")
  from emitsD [OF assms(2) f] obtain evs2 where "h2 = h1 @ evs2" "list_all P evs2" by blast
  with m evs f show "\<exists>evs. snd (tryFinally m fin h) = h @ evs \<and> list_all P evs"
    by (auto simp: tryFinally_def split: sum.splits)
qed

lemma emits_ignoreError:
  assumes "emits fn P" and "\<And>e. P (LogWarn e)"
  shows "emits (ignoreError fn) P"
  unfolding ignoreError_def
  using assms by (intro emits_tryCatch emits_thenE emits_returnE emits_logWarn)

lemma emits_forEachE:
  assumes "\<And>x. emits (f x) P"
  shows "emits (forEachE f xs) P"
  using assms by (induction xs) (auto intro: emits_thenE)

lemma startAll_extends:
  assumes "\<And>x. emits (f x) P" and "startAll f xs h = (rs, h')"
  shows "\<exists>evs. h' = h @ evs \<and> list_all P evs"
  using assms(2)
proof (induction xs arbitrary: h rs h')
  case Nil
  then show ?case by simp
next
  case (Cons x xs)
  obtain r h1 where fx: "f x h = (r, h1)" by (cases "f x h")
  obtain rs1 h2 where st: "startAll f xs h1 = (rs1, h2)" by (cases "startAll f xs h1")
  from emitsD [OF assms(1) fx] obtain evs where "h1 = h @ evs" "list_all P evs" by blast
  moreover from Cons.IH [OF st] obtain evs2 where "h2 = h1 @ evs2" "list_all P evs2" by blast
  moreover from Cons.prems fx st have "h' = h2" by simp
  ultimately show ?case by auto
qed

lemma emits_promiseAll:
  assumes "\<And>x. emits (f x) P"
  shows "emits (promiseAll f xs) P"
proof (rule emitsI)
  fix h
  obtain rs h' where st: "startAll f xs h = (rs, h')" by (cases "startAll f xs h")
  from startAll_extends [OF assms st] st
  show "\<exists>evs. snd (promiseAll f xs h) = h @ evs \<and> list_all P evs"
    by (auto simp: promiseAll_def)
qed

lemma emits_shExec: "P (ShExec c) \<Longrightarrow> emits (shExec env c) P"
  by (simp add: emits_def shExec_def)

lemma emits_execInRepo:
  assumes "Q (withOptions (trim cmd) opts)"
  shows "emits (execInRepo env repo cmd opts) (gitEvents Q)"
  unfolding execInRepo_def Let_def
  using assms
  by (auto intro!: emits_tryFinally emits_thenE emits_bindE emits_perform emits_logDebug
      emits_shExec emits_forEachE)

section \<open>Facts about strings\<close>

lemma dropWhile_hd_id: "s \<noteq> [] \<Longrightarrow> \<not> P (hd s) \<Longrightarrow> dropWhile P s = s"
  by (cases s) auto

lemma trim_id:
  assumes "s \<noteq> []" and "\<not> isWhiteSpace (hd s)" and "\<not> isWhiteSpace (last s)"
  shows "trim s = s"
proof -
  have "dropWhile isWhiteSpace s = s"
    using assms by (simp add: dropWhile_hd_id)
  moreover have "dropWhile isWhiteSpace (rev s) = rev s"
    using assms by (simp add: dropWhile_hd_id hd_rev)
  ultimately show ?thesis by (simp add: trim_def)
qed

lemma trim_keeps_prefix:
  assumes "p \<noteq> []" and "\<not> isWhiteSpace (hd p)" and "\<not> isWhiteSpace (last p)"
  shows "\<exists>r'. trim (p @ r) = p @ r'"
proof -
  have 1: "dropWhile isWhiteSpace (p @ r) = p @ r"
    using assms by (simp add: dropWhile_hd_id)
  have 2: "dropWhile isWhiteSpace (rev p) = rev p"
    using assms by (simp add: dropWhile_hd_id hd_rev)
  have "\<exists>q. dropWhile isWhiteSpace (rev r @ rev p) = q @ rev p"
  proof (cases "\<forall>x \<in> set (rev r). isWhiteSpace x")
    case True
    then have "dropWhile isWhiteSpace (rev r @ rev p) = dropWhile isWhiteSpace (rev p)"
      by (simp add: dropWhile_append)
    with 2 show ?thesis by simp
  next
    case False
    then have "dropWhile isWhiteSpace (rev r @ rev p) = dropWhile isWhiteSpace (rev r) @ rev p"
      by (auto simp: dropWhile_append)
    then show ?thesis by blast
  qed
  then obtain q where "dropWhile isWhiteSpace (rev r @ rev p) = q @ rev p" ..
  with 1 have "trim (p @ r) = p @ rev q" by (simp add: trim_def)
  then show ?thesis ..
qed

lemma trim_append_white:
  assumes "s \<noteq> []" and "\<not> isWhiteSpace (hd s)" and "\<not> isWhiteSpace (last s)"
    and "list_all isWhiteSpace w"
  shows "trim (s @ w) = s"
proof -
  have 1: "dropWhile isWhiteSpace (s @ w) = s @ w"
    using assms by (simp add: dropWhile_hd_id)
  have "dropWhile isWhiteSpace (rev w @ rev s) = dropWhile isWhiteSpace (rev s)"
    using assms(4) by (simp add: dropWhile_append list_all_iff)
  also have "\<dots> = rev s"
    using assms by (simp add: dropWhile_hd_id hd_rev)
  finally show ?thesis using 1 by (simp add: trim_def)
qed

lemma startsWith_trim_prefix:
  assumes "p \<noteq> []" and "\<not> isWhiteSpace (hd p)" and "\<not> isWhiteSpace (last p)"
  shows "startsWith (trim (p @ r)) p"
  using trim_keeps_prefix [OF assms, of r] by (auto simp: startsWith_append)

lemma startsWith_withOptions:
  assumes "startsWith c p"
  shows "startsWith (withOptions c opts) p"
  using assms by (auto simp: withOptions_def Let_def startsWith_iff)

lemma withOptions_Nil [simp]: "withOptions c [] = c"
  by (simp add: withOptions_def)

lemma of_char_digitChar: "d < 10 \<Longrightarrow> of_char (digitChar d) = (48 + d :: nat)"
  by (simp add: digitChar_def)

lemma digitChar_not_white: "d < 10 \<Longrightarrow> \<not> isWhiteSpace (digitChar d)"
proof
  assume d: "d < 10" and w: "isWhiteSpace (digitChar d)"
  from w have "(of_char (digitChar d) :: nat) \<in> {9, 10, 11, 12, 13, 32, 160}"
    by (auto simp: isWhiteSpace_def)
  with d show False by (simp add: of_char_digitChar)
qed

lemma showNat_last: "showNat n \<noteq> [] \<and> last (showNat n) = digitChar (n mod 10)"
  by (subst (1 2) showNat.simps) simp

lemma joinWith_last:
  assumes "xs \<noteq> []" and "last xs \<noteq> []"
  shows "joinWith sep xs \<noteq> [] \<and> last (joinWith sep xs) = last (last xs)"
  using assms by (induction sep xs rule: joinWith.induct) auto

lemma foldl_append_concat: "foldl (\<lambda>aggr prs. aggr @ prs) acc xss = acc @ concat xss"
  by (induction xss arbitrary: acc) auto

lemma supercededPrsOf_concat: "supercededPrsOf m = concat (map snd m)"
  by (simp add: supercededPrsOf_def mapValues_def foldl_append_concat)

lemma subject_ends:
  assumes "lat \<noteq> []" and "\<not> isWhiteSpace (last lat)"
  shows "COMMIT_MESSAGE_PREFIX @ lat \<noteq> [] \<and> \<not> isWhiteSpace (hd (COMMIT_MESSAGE_PREFIX @ lat))
         \<and> \<not> isWhiteSpace (last (COMMIT_MESSAGE_PREFIX @ lat))"
  using assms by (simp add: COMMIT_MESSAGE_PREFIX_def isWhiteSpace_def)

lemma commitMsgOf_eq:
  assumes "lat \<noteq> []" and "\<not> isWhiteSpace (last lat)"
  shows "commitMsgOf (COMMIT_MESSAGE_PREFIX @ lat) prs =
           (if prs = [] then COMMIT_MESSAGE_PREFIX @ lat
            else COMMIT_MESSAGE_PREFIX @ lat @ NL @ NL
                 @ joinWith NL (map (\<lambda>pr. ''Closes #'' @ showNat (number pr)) prs))"
proof (cases "prs = []")
  case True
  have "list_all isWhiteSpace (NL @ NL)"
    by (simp add: NL_def isWhiteSpace_def)
  from trim_append_white [OF subject_ends [OF assms, THEN conjunct1]
      subject_ends [OF assms, THEN conjunct2, THEN conjunct1]
      subject_ends [OF assms, THEN conjunct2, THEN conjunct2] this]
  show ?thesis using True by (simp add: commitMsgOf_def)
next
  case False
  let ?lines = "map (\<lambda>pr. ''Closes #'' @ showNat (number pr)) prs"
  let ?msg = "(COMMIT_MESSAGE_PREFIX @ lat) @ NL @ NL @ joinWith NL ?lines"
  have l: "?lines \<noteq> []" "last ?lines \<noteq> []"
    using False by (simp_all add: last_map)
  have "last (last ?lines) = digitChar (number (last prs) mod 10)"
    using False by (simp add: last_map showNat_last)
  with joinWith_last [OF l, of NL]
  have j: "joinWith NL ?lines \<noteq> []" "\<not> isWhiteSpace (last (joinWith NL ?lines))"
    by (simp_all add: digitChar_not_white)
  have "?msg \<noteq> []" "\<not> isWhiteSpace (hd ?msg)" "\<not> isWhiteSpace (last ?msg)"
    using j by (simp_all add: COMMIT_MESSAGE_PREFIX_def isWhiteSpace_def)
  from trim_id [OF this] show ?thesis using False by (simp add: commitMsgOf_def)
qed

section \<open>The commands of the adapter\<close>

lemma startsWith_trim:
  assumes "startsWith s p" and "solidPrefix p"
  shows "startsWith (trim s) p"
proof -
  from assms(1) obtain r where "s = p @ r" by (auto simp: startsWith_iff)
  with assms(2) show ?thesis by (simp add: solidPrefix_def startsWith_trim_prefix)
qed

lemma prefix_clash:
  assumes "startsWith c p" and "startsWith c q"
  shows "take (min (length p) (length q)) p = take (min (length p) (length q)) q"
proof -
  from assms(1) obtain r where r: "c = p @ r" unfolding startsWith_iff ..
  from assms(2) obtain r' where r': "c = q @ r'" unfolding startsWith_iff ..
  from r r' have "take (min (length p) (length q)) (p @ r) = take (min (length p) (length q)) (q @ r')"
    by simp
  then show ?thesis by simp
qed

lemma emits_execInRepo_prefix:
  assumes "startsWith partialCmd p" and "solidPrefix p" and "\<And>c. startsWith c p \<Longrightarrow> Q c"
  shows "emits (execInRepo env repo partialCmd opts) (gitEvents Q)"
  by (rule emits_execInRepo) (intro assms(3) startsWith_withOptions startsWith_trim assms(1,2))

lemma gitEvents_mono:
  assumes "gitEvents Q e" and "\<And>c. Q c \<Longrightarrow> Q' c"
  shows "gitEvents Q' e"
  using assms by (cases e) auto

lemma emits_init:
  assumes "\<And>c. startsWith c ''git init'' \<Longrightarrow> Q c"
  shows "emits (init env repo opts) (gitEvents Q)"
  unfolding init_def
  by (intro emits_thenE emits_returnE emits_execInRepo_prefix [where p = "''git init''"] assms)
     (simp_all add: startsWith_def solidPrefix_def isWhiteSpace_def)

lemma emits_addRemote:
  assumes "\<And>c. startsWith c ''git remote'' \<Longrightarrow> Q c"
  shows "emits (addRemote env repo nm u) (gitEvents Q)"
  unfolding addRemote_def
  by (intro emits_thenE emits_returnE emits_execInRepo_prefix [where p = "''git remote''"] assms)
     (simp_all add: startsWith_def solidPrefix_def isWhiteSpace_def)

lemma emits_config:
  assumes "\<And>c. startsWith c ''git config'' \<Longrightarrow> Q c"
  shows "emits (config env repo key val) (gitEvents Q)"
  unfolding config_def
  by (intro emits_thenE emits_returnE emits_execInRepo_prefix [where p = "''git config''"] assms)
     (simp_all add: startsWith_def solidPrefix_def isWhiteSpace_def)

lemma emits_checkout:
  assumes "\<And>c. startsWith c ''git checkout'' \<Longrightarrow> Q c"
  shows "emits (checkout env repo ref opts) (gitEvents Q)"
  unfolding checkout_def
  by (intro emits_thenE emits_returnE emits_execInRepo_prefix [where p = "''git checkout''"] assms)
     (simp_all add: startsWith_def solidPrefix_def isWhiteSpace_def)

lemma emits_fetch_origin:
  assumes "\<And>c. startsWith c ''git fetch origin'' \<Longrightarrow> Q c"
  shows "emits (fetch env repo ORIGIN args) (gitEvents Q)"
  unfolding fetch_def
  by (cases args)
     (auto intro!: emits_thenE emits_returnE emits_execInRepo_prefix [where p = "''git fetch origin''"] assms
       simp: startsWith_def solidPrefix_def isWhiteSpace_def ORIGIN_def)

lemma emits_fetch_upstream:
  assumes "\<And>c. startsWith c ''git fetch upstream'' \<Longrightarrow> Q c"
  shows "emits (fetch env repo UPSTREAM args) (gitEvents Q)"
  unfolding fetch_def
  by (cases args)
     (auto intro!: emits_thenE emits_returnE emits_execInRepo_prefix [where p = "''git fetch upstream''"] assms
       simp: startsWith_def solidPrefix_def isWhiteSpace_def UPSTREAM_def)

lemma emits_currentBranch:
  assumes "Q ''git rev-parse --abbrev-ref HEAD''"
  shows "emits (currentBranch env repo) (gitEvents Q)"
proof -
  have "trim ''git rev-parse --abbrev-ref HEAD'' = ''git rev-parse --abbrev-ref HEAD''"
    by (rule trim_id) (simp_all add: isWhiteSpace_def)
  then show ?thesis
    unfolding currentBranch_def
    using assms by (intro emits_bindE emits_returnE emits_execInRepo) simp
qed

lemma emits_commit:
  assumes "Q (commitCmd msg)"
  shows "emits (commit env repo msg [(''all'', Flag True)]) (gitEvents Q)"
proof -
  have "trim ''git commit'' = ''git commit''"
    by (rule trim_id) (simp_all add: isWhiteSpace_def)
  then show ?thesis
    unfolding commit_def
    using assms by (intro emits_thenE emits_returnE emits_execInRepo) (simp add: commitCmd_def)
qed

lemma emits_push_current:
  assumes "Q ''git rev-parse --abbrev-ref HEAD''" and "\<And>c. startsWith c ''git push origin'' \<Longrightarrow> Q c"
  shows "emits (push env repo ORIGIN (PushOpts opts)) (gitEvents Q)"
  unfolding push_def
  by (auto intro!: emits_bindE emits_thenE emits_returnE emits_currentBranch assms
        emits_execInRepo_prefix [where p = "''git push origin''"]
      simp: startsWith_def solidPrefix_def isWhiteSpace_def ORIGIN_def)

lemma emits_deleteRemoteBranch:
  assumes "Q (deleteCmd branch)"
  shows "emits (deleteRemoteBranch env repo ORIGIN branch) (gitEvents Q)"
  unfolding deleteRemoteBranch_def push_def
  using assms
  by (auto intro!: emits_thenE emits_returnE emits_execInRepo simp: ORIGIN_def deleteCmd_def)

lemma emits_getRemoteBranches_origin:
  assumes "\<And>c. startsWith c ''git fetch origin'' \<Longrightarrow> Q c" and "\<And>c. startsWith c ''git branch'' \<Longrightarrow> Q c"
  shows "emits (getRemoteBranches env repo ORIGIN) (gitEvents Q)"
  unfolding getRemoteBranches_def
  by (intro emits_thenE emits_bindE emits_returnE emits_fetch_origin assms
        emits_execInRepo_prefix [where p = "''git branch''"])
     (simp_all add: startsWith_def solidPrefix_def isWhiteSpace_def)

section \<open>Events of the steps of the upgrade\<close>

lemma allowsGit_onExec [simp]: "allowsGit (onExec Q)"
  by (simp add: allowsGit_def)

lemma gitEvents_allowed:
  assumes "allowsGit P" and "gitEvents (\<lambda>c. P (ShExec c)) e"
  shows "P e"
  using assms by (cases e) (auto simp: allowsGit_def)

lemma emits_git:
  assumes "emits p (gitEvents (\<lambda>c. P (ShExec c)))" and "allowsGit P"
  shows "emits p P"
  using assms(1) by (rule emits_weaken) (rule gitEvents_allowed [OF assms(2)])

lemma emits_createPullRequest:
  "P (CreatePullRequest r headRef base ttl) \<Longrightarrow> emits (createPullRequest env r headRef base ttl) P"
  by (simp add: emits_def createPullRequest_def)

lemma emits_getPullRequests:
  "P (GetPullRequests r params) \<Longrightarrow> emits (getPullRequests env r params) P"
  by (simp add: emits_def getPullRequests_def)

lemma emits_getAffectedFiles:
  "P (GetAffectedFiles r a b) \<Longrightarrow> emits (getAffectedFiles env r a b) P"
  by (simp add: emits_def getAffectedFiles_def)

lemma emits_getLatestSha:
  "P (GetLatestSha r b) \<Longrightarrow> emits (getLatestSha env r b) P"
  by (simp add: emits_def getLatestSha_def)

lemma emits_getFileContents:
  "P (GetFileContents r a b) \<Longrightarrow> emits (getFileContents env r a b) P"
  by (simp add: emits_def getFileContents_def)

lemma emits_destroy:
  assumes "\<And>a b. P (ShRm a b)"
  shows "emits (destroy env repo) P"
  unfolding destroy_def using assms by (auto intro!: emits_thenE emits_perform)

lemma emits_createLocalBranch:
  assumes "allowsGit P" and "\<And>s. P (LogInfo s)"
    and "\<And>c. startsWith c ''git fetch upstream'' \<Longrightarrow> P (ShExec c)"
    and "\<And>c. startsWith c ''git checkout'' \<Longrightarrow> P (ShExec c)"
  shows "emits (createLocalBranch env repo localBranch branch) P"
  unfolding createLocalBranch_def
  by (intro emits_thenE emits_logInfo assms emits_git [OF emits_fetch_upstream]
      emits_git [OF emits_checkout])

lemma emits_makeChanges:
  assumes "\<And>s. P (LogInfo s)" and "\<And>a b c d. P (ShSed a b c d)"
  shows "emits (makeChanges env repo cur lat) P"
  unfolding makeChanges_def
  by (intro emits_thenE emits_logInfo emits_perform assms)

lemma emits_commitAndPush:
  assumes "allowsGit P" and "\<And>s. P (LogInfo s)"
    and "P (ShExec (commitCmd msg))"
    and "\<And>c. startsWith c ''git fetch origin'' \<Longrightarrow> P (ShExec c)"
    and "P (ShExec ''git rev-parse --abbrev-ref HEAD'')"
    and "\<And>c. startsWith c ''git push origin'' \<Longrightarrow> P (ShExec c)"
  shows "emits (commitAndPush env repo msg) P"
  unfolding commitAndPush_def
  by (intro emits_thenE emits_logInfo assms emits_git [OF emits_commit]
      emits_git [OF emits_fetch_origin] emits_git [OF emits_push_current])

lemma emits_submitPullRequest:
  assumes "\<And>s. P (LogInfo s)" and "\<And>e. P (LogWarn e)"
    and "\<And>r a b c. P (CreatePullRequest r a b c)" and "\<And>r n ls. P (AddLabels r n ls)"
  shows "emits (submitPullRequest env originBranch upstreamBranch ttl) P"
  unfolding submitPullRequest_def Let_def
  by (intro emits_thenE emits_bindE emits_logInfo emits_createPullRequest emits_ignoreError
      emits_perform emits_returnE assms)

lemma emits_commentOnSupercededPrs:
  assumes "\<And>r n s. P (Comment r n s)"
  shows "emits (commentOnSupercededPrs env prs newPr) P"
  unfolding commentOnSupercededPrs_def Let_def
  by (intro emits_thenE emits_promiseAll emits_perform emits_returnE assms)

lemma revparse_prefixes:
  "\<not> startsWith ''git rev-parse --abbrev-ref HEAD'' ''git commit''"
  "\<not> startsWith ''git rev-parse --abbrev-ref HEAD'' ''git push''"
  "\<not> startsWith ''git rev-parse --abbrev-ref HEAD'' ''git checkout''"
  "\<not> startsWith ''git rev-parse --abbrev-ref HEAD'' ''git fetch upstream''"
  by (simp_all add: startsWith_def)

lemma emits_submitUpgrade_commit:
  "emits (submitUpgrade env branch cur lat repo m)
     (onExec (\<lambda>c. startsWith c ''git commit'' \<longrightarrow>
                c = commitCmd (commitMsgOf (COMMIT_MESSAGE_PREFIX @ lat) (supercededPrsOf m))))"
  unfolding submitUpgrade_def Let_def
  by (intro emits_thenE emits_bindE emits_logInfo emits_ignoreError emits_createLocalBranch
      emits_makeChanges emits_commitAndPush emits_submitPullRequest emits_commentOnSupercededPrs
      emits_destroy allowsGit_onExec)
     (auto dest: prefix_clash simp: revparse_prefixes)

section \<open>The map of open pull requests\<close>

lemma startAll_length: "startAll f xs h = (rs, h') \<Longrightarrow> length rs = length xs"
  by (induction xs arbitrary: h rs h') (auto split: prod.splits)

lemma joinAll_length: "joinAll rs = Inr ys \<Longrightarrow> length ys = length rs"
proof (induction rs arbitrary: ys rule: joinAll.induct)
  case 1
  then show ?case by simp
next
  case (2 e rs)
  then show ?case by simp
next
  case (3 x rs)
  then show ?case by (auto split: sum.splits)
qed

lemma promiseAll_length:
  assumes "promiseAll f xs h = (Inr ys, h')"
  shows "length ys = length xs"
proof -
  obtain rs h1 where st: "startAll f xs h = (rs, h1)" by (cases "startAll f xs h")
  with assms have "joinAll rs = Inr ys" by (simp add: promiseAll_def)
  with st show ?thesis by (simp add: joinAll_length startAll_length)
qed

lemma mapSet_fresh: "k \<notin> fst ` set m \<Longrightarrow> mapSet k v m = m @ [(k, v)]"
  by (induction m) auto

lemma foldl_mapSet_distinct:
  "distinct (map fst (acc @ es)) \<Longrightarrow> foldl (\<lambda>m kv. mapSet (fst kv) (snd kv) m) acc es = acc @ es"
proof (induction es arbitrary: acc)
  case Nil
  then show ?case by simp
next
  case (Cons kv es)
  from Cons.prems have fresh: "fst kv \<notin> fst ` set acc" by auto
  from Cons.prems have "distinct (map fst ((acc @ [kv]) @ es))" by simp
  from Cons.IH [OF this] fresh show ?case
    by (cases kv) (simp add: mapSet_fresh)
qed

lemma newMap_distinct: "distinct (map fst entries) \<Longrightarrow> newMap entries = entries"
  using foldl_mapSet_distinct [of "[]" entries] by (simp add: newMap_def)

lemma zip_map_snd: "map (\<lambda>(b, prs). (b, f prs)) (zip bs xs) = zip bs (map f xs)"
  by (induction bs xs rule: list_induct2') auto

lemma distinct_fst_filter_zip:
  assumes "distinct bs"
  shows "distinct (map fst (filter P (zip bs ys)))"
proof -
  have "distinct (map fst (zip bs ys))"
    using assms by (simp add: map_fst_zip_take)
  then show ?thesis by (rule distinct_map_filter)
qed

lemma getOpenPrsPerBranch_map:
  assumes "getOpenPrsPerBranch env branches h = (Inr m, h')" and "distinct branches"
  shows "\<exists>answers. length answers = length branches
           \<and> m = filter (\<lambda>entry. snd entry \<noteq> []) (zip branches (map openRelevantPrs answers))"
proof -
  from bindE_returns [OF assms(1) [unfolded getOpenPrsPerBranch_def]]
  obtain answers h1 where
    pa: "promiseAll (\<lambda>searchParams. getPullRequests env (upstreamRepo env) searchParams)
           (map (\<lambda>branch. \<lparr>head = owner (originRepo env) @ '':'' @ branch, searchState = ''all''\<rparr>) branches) h
         = (Inr answers, h1)"
    and m: "m = newMap (filter (\<lambda>entry. length (snd entry) > 0)
                 (map (\<lambda>(branch, prs). (branch, filter (\<lambda>pr. state pr = ''open'') prs))
                    (zip branches (map (\<lambda>prsForBranch. filter (\<lambda>pr. startsWith (title pr) COMMIT_MESSAGE_PREFIX) prsForBranch) answers))))"
    by (auto simp: Let_def)
  have len: "length answers = length branches"
    using promiseAll_length [OF pa] by simp
  have "m = newMap (filter (\<lambda>entry. snd entry \<noteq> []) (zip branches (map openRelevantPrs answers)))"
  proof -
    have "openRelevantPrs = filter (\<lambda>x. startsWith (title x) COMMIT_MESSAGE_PREFIX \<and> state x = ''open'')"
      by (rule ext) (simp add: openRelevantPrs_def conj_commute)
    then show ?thesis
      unfolding m by (simp add: zip_map_snd comp_def)
  qed
  also have "\<dots> = filter (\<lambda>entry. snd entry \<noteq> []) (zip branches (map openRelevantPrs answers))"
    by (rule newMap_distinct) (rule distinct_fst_filter_zip [OF assms(2)])
  finally show ?thesis using len by blast
qed

section \<open>The commit message\<close>

lemma new_events:
  assumes "emits p P" and "p h = (r, h')"
  shows "list_all P (drop (length h) h')"
  using emitsD [OF assms] by auto

text \<open>
  C4, as amended: every \<open>git commit\<close> command that the submitting step executes carries
  this message: the subject, which is the fixed prefix followed by \<open>latestSha\<close> (for a
  \<open>latestSha\<close> that does not end in white space), and, unless the map of open pull requests
  is empty, a blank line and one \<open>Closes #N\<close> line for each pull request record of the map,
  entry by entry. The entries of the map are in the order of the discovered branches (for a
  duplicate-free list of branches). Nothing removes duplicates: a pull request that is listed
  for two branches is named twice.
\<close>

theorem commit_message_closes:
  assumes "submitUpgrade env branch cur lat repo m h = (r, h')"
    and "ShExec c \<in> set (drop (length h) h')" and "startsWith c ''git commit''"
    and "lat \<noteq> []" and "\<not> isWhiteSpace (last lat)"
  shows "c = commitCmd (COMMIT_MESSAGE_PREFIX @ lat
                @ (if concat (map snd m) = [] then []
                   else NL @ NL @ joinWith NL (map (\<lambda>pr. ''Closes #'' @ showNat (number pr)) (concat (map snd m)))))
       \<and> (\<forall>branches h0 h1. distinct branches \<and> getOpenPrsPerBranch env branches h0 = (Inr m, h1) \<longrightarrow>
            (\<exists>answers. length answers = length branches
               \<and> m = filter (\<lambda>entry. snd entry \<noteq> []) (zip branches (map openRelevantPrs answers))))"
proof -
  from new_events [OF emits_submitUpgrade_commit assms(1)] assms(2,3)
  have "c = commitCmd (commitMsgOf (COMMIT_MESSAGE_PREFIX @ lat) (supercededPrsOf m))"
    by (auto simp: list_all_iff)
  then have "c = commitCmd (COMMIT_MESSAGE_PREFIX @ lat
                @ (if concat (map snd m) = [] then []
                   else NL @ NL @ joinWith NL (map (\<lambda>pr. ''Closes #'' @ showNat (number pr)) (concat (map snd m)))))"
    by (simp add: commitMsgOf_eq [OF assms(4,5)] supercededPrsOf_concat)
  then show ?thesis
    using getOpenPrsPerBranch_map by blast
qed

text \<open>
  The claim as stated fails where the hosting client lists pull request 10 for both stale
  branches: the commit message names it twice.
\<close>

theorem commit_message_duplicates_counterexample:
  "ShExec (''git commit --all --message \"build(docs-infra): upgrade cli command docs sources to bbb2222\"''
           @ '' --message \"\" --message \"Closes #10\" --message \"Closes #10\"'')
   \<in> set (snd (checkAndUpgrade dupEnv None []))"
  by code_simp

lemma showNat_10: "showNat 10 = ''10''"
  by code_simp

theorem commit_message_closes_witness:
  "ShExec (''git commit --all --message \"build(docs-infra): upgrade cli command docs sources to bbb2222\"''
           @ '' --message \"\" --message \"Closes #10\"'')
     \<in> set (snd (submitUpgrade demoEnv ''master'' ''aaa1111'' ''bbb2222'' demoRepo demoMap []))
   \<and> ''git commit --all --message \"build(docs-infra): upgrade cli command docs sources to bbb2222\"''
           @ '' --message \"\" --message \"Closes #10\"''
       = commitCmd (COMMIT_MESSAGE_PREFIX @ ''bbb2222'' @ NL @ NL @ ''Closes #10'')"
proof -
  let ?c = "''git commit --all --message \"build(docs-infra): upgrade cli command docs sources to bbb2222\"''
           @ '' --message \"\" --message \"Closes #10\"''"
  let ?run = "submitUpgrade demoEnv ''master'' ''aaa1111'' ''bbb2222'' demoRepo demoMap []"
  have ev: "ShExec ?c \<in> set (drop (length ([] :: event list)) (snd ?run))"
    by code_simp
  have sw: "startsWith ?c ''git commit''"
    by (simp add: startsWith_def)
  have l1: "''bbb2222'' \<noteq> []" and l2: "\<not> isWhiteSpace (last ''bbb2222'')"
    by (simp_all add: isWhiteSpace_def)
  from commit_message_closes [OF surjective_pairing ev sw l1 l2] ev
  show ?thesis
    by (simp add: demoMap_def showNat_10)
qed

section \<open>The run, step by step\<close>



lemma body_needed:
  assumes "detectUpgrade env branch h = (Inr res, h1)" and "needsUpgrade res"
  shows "checkAndUpgradeBody env branch h = upgrade env branch (currentSha res) (latestSha res) h1"
  using assms
  by (auto simp: detectUpgrade_def checkAndUpgradeBody_def thenE_def bindE_def
      split: prod.splits sum.splits)


lemma upgrade_discovered:
  assumes "discoverBranches env cur lat h1 = (Inr (repo, rbs, m), h4)"
  shows "upgrade env branch cur lat h1 =
           thenE (cleanupObsoleteBranches env repo rbs (mapKeys m))
             (checkExistingPr env branch cur lat repo m) h4"
  using assms
  by (auto simp: discoverBranches_def upgrade_def thenE_def bindE_def Let_def
      split: prod.splits sum.splits)


section \<open>Events before the clean-up\<close>

lemma setupEvent_cmd:
  assumes "startsWith c p" and "p \<in> {''git init'', ''git remote'', ''git config'', ''git fetch origin'', ''git branch''}"
  shows "setupEvent (ShExec c)"
  using assms by (auto simp: isNewWorkCmd_def dest: prefix_clash)

lemma allowsGit_setupEvent [simp]: "allowsGit setupEvent"
  by (simp add: allowsGit_def)

lemma emits_checkNeedsUpgrade: "emits (checkNeedsUpgrade env branch) setupEvent"
  unfolding checkNeedsUpgrade_def retrieveShaFromAio_def retrieveShaFromCliBuilds_def
    decideNeedsUpgrade_def Let_def
  by (auto intro!: emits_bindE emits_thenE emits_logInfo emits_getFileContents emits_getLatestSha
        emits_getAffectedFiles
      simp: startsWith_def split: sum.splits)

lemma emits_detectUpgrade: "emits (detectUpgrade env branch) setupEvent"
  unfolding detectUpgrade_def
  by (intro emits_thenE emits_logInfo emits_checkNeedsUpgrade) (simp add: startsWith_def)

lemma emits_initLocalRepo: "emits (initLocalRepo env) setupEvent"
  unfolding initLocalRepo_def Let_def
  by (auto intro!: emits_thenE emits_logInfo emits_perform emits_git [OF emits_init]
        emits_git [OF emits_addRemote] emits_git [OF emits_config]
      intro: setupEvent_cmd simp: startsWith_def)

lemma emits_getOpenPrsPerBranch: "emits (getOpenPrsPerBranch env branches) setupEvent"
  unfolding getOpenPrsPerBranch_def Let_def
  by (intro emits_bindE emits_promiseAll emits_getPullRequests emits_returnE) simp

lemma emits_discoverBranches: "emits (discoverBranches env cur lat) setupEvent"
  unfolding discoverBranches_def Let_def
  by (intro emits_thenE emits_bindE emits_logInfo emits_initLocalRepo emits_returnE
        emits_getOpenPrsPerBranch emits_git [OF emits_getRemoteBranches_origin]
        setupEvent_cmd [where p = "''git fetch origin''"] setupEvent_cmd [where p = "''git branch''"]
        allowsGit_setupEvent)
     (simp_all add: startsWith_def)

lemma emits_reportError: "emits (reportError env action err) setupEvent"
proof (rule emitsI)
  fix h
  show "\<exists>evs. snd (reportError env action err h) = h @ evs \<and> list_all setupEvent evs"
    by (simp add: reportError_def thenE_def bindE_def Let_def perform_def startsWith_def)
qed

lemma emits_catch_block:
  "emits (thenE (ignoreError (perform env (ShRm ''-f'' (CREDENTIALS_PATH env))))
            (thenE (ignoreError (reportError env ''checking and upgrading'' err)) (throwE err)))
     setupEvent"
  by (intro emits_thenE emits_ignoreError emits_perform emits_reportError emits_throwE) simp_all

lemma startsWith_deleteCmd: "startsWith (deleteCmd b) ''git push origin :''"
  unfolding deleteCmd_def
  by (rule startsWith_trim) (simp_all add: startsWith_def solidPrefix_def isWhiteSpace_def)

lemma deleteCmd_not_new_work: "\<not> isNewWorkCmd (deleteCmd b)"
  using startsWith_deleteCmd [of b] by (auto simp: isNewWorkCmd_def dest: prefix_clash)

lemma emits_cleanupObsoleteBranches:
  "emits (cleanupObsoleteBranches env repo branches (mapKeys m))
     (gitEvents (\<lambda>c. c \<in> deleteCmd ` set (obsoleteBranches branches m)))"
proof -
  have "emits (forEachE (\<lambda>branch. deleteRemoteBranch env repo ORIGIN branch) bs)
          (gitEvents (\<lambda>c. c \<in> deleteCmd ` set bs))" for bs
  proof (induction bs)
    case Nil
    show ?case unfolding forEachE.simps by (rule emits_returnE)
  next
    case (Cons b bs)
    have 1: "emits (deleteRemoteBranch env repo ORIGIN b) (gitEvents (\<lambda>c. c \<in> deleteCmd ` set (b # bs)))"
      by (rule emits_deleteRemoteBranch) simp
    have 2: "emits (forEachE (\<lambda>branch. deleteRemoteBranch env repo ORIGIN branch) bs)
               (gitEvents (\<lambda>c. c \<in> deleteCmd ` set (b # bs)))"
      by (rule emits_weaken [OF Cons.IH]) (auto elim: gitEvents_mono)
    from 1 2 show ?case by (simp add: emits_thenE)
  qed
  from this [of "obsoleteBranches branches m"] show ?thesis
    unfolding cleanupObsoleteBranches_def obsoleteBranches_def Let_def .
qed

lemma setupEvent_quiet: "setupEvent e \<Longrightarrow> quiet e"
  by (cases e) (auto simp: quiet_def)

lemma deletion_quiet: "gitEvents (\<lambda>c. c \<in> deleteCmd ` set bs) e \<Longrightarrow> quiet e"
  by (cases e) (auto simp: quiet_def deleteCmd_not_new_work)

section \<open>The commands of the clean-up\<close>

lemma execCmds_append [simp]: "execCmds (xs @ ys) = execCmds xs @ execCmds ys"
  by (induction xs rule: execCmds.induct) auto

lemma forEachE_logDebug:
  "forEachE (\<lambda>line. logDebug (g line)) ls h = (Inr (), h @ map (\<lambda>line. LogDebug (g line)) ls)"
  by (induction ls arbitrary: h) (simp_all add: thenE_def bindE_def)

lemma execCmds_LogDebug [simp]: "execCmds (map (\<lambda>line. LogDebug (g line)) ls) = []"
  by (induction ls) simp_all

lemma execInRepo_cmds:
  assumes "execInRepo env repo cmd opts h = (r, h')"
  shows "case r of
           Inr out \<Rightarrow> execCmds h' = execCmds h @ [withOptions (trim cmd) opts]
         | Inl e \<Rightarrow> execCmds h' = execCmds h \<or> execCmds h' = execCmds h @ [withOptions (trim cmd) opts]"
  using assms
  by (auto simp: execInRepo_def tryFinally_def thenE_def bindE_def perform_def shExec_def Let_def
        forEachE_logDebug
      split: if_splits sum.splits option.splits prod.splits)

lemma deleteRemoteBranch_cmds:
  assumes "deleteRemoteBranch env repo ORIGIN b h = (r, h')"
  shows "case r of
           Inr u \<Rightarrow> execCmds h' = execCmds h @ [deleteCmd b]
         | Inl e \<Rightarrow> execCmds h' = execCmds h \<or> execCmds h' = execCmds h @ [deleteCmd b]"
proof -
  obtain r0 where x: "execInRepo env repo (''git push origin :'' @ b) [] h = (r0, h')"
    and r: "r = (case r0 of Inl e \<Rightarrow> Inl e | Inr out \<Rightarrow> Inr ())"
    using assms
    by (auto simp: deleteRemoteBranch_def push_def thenE_def bindE_def ORIGIN_def
        split: prod.splits sum.splits)
  from execInRepo_cmds [OF x] r show ?thesis
    by (auto simp: deleteCmd_def split: sum.splits)
qed

lemma forEach_delete_cmds:
  assumes "forEachE (\<lambda>branch. deleteRemoteBranch env repo ORIGIN branch) bs h = (r, h')"
  shows "case r of
           Inr u \<Rightarrow> execCmds h' = execCmds h @ map deleteCmd bs
         | Inl e \<Rightarrow> (\<exists>i < length bs. execCmds h' = execCmds h @ map deleteCmd (take i bs)
                                  \<or> execCmds h' = execCmds h @ map deleteCmd (take (Suc i) bs))"
  using assms
proof (induction bs arbitrary: h)
  case Nil
  then show ?case by auto
next
  case (Cons b bs)
  obtain r1 h1 where d: "deleteRemoteBranch env repo ORIGIN b h = (r1, h1)"
    by (cases "deleteRemoteBranch env repo ORIGIN b h")
  show ?case
  proof (cases r1)
    case (Inl e)
    with d Cons.prems have "r = Inl e" "h' = h1"
      by (simp_all add: thenE_def bindE_def)
    with deleteRemoteBranch_cmds [OF d] Inl
    have "execCmds h' = execCmds h @ map deleteCmd (take 0 (b # bs))
          \<or> execCmds h' = execCmds h @ map deleteCmd (take (Suc 0) (b # bs))"
      by simp
    with \<open>r = Inl e\<close> show ?thesis by (auto intro: exI [where x = 0])
  next
    case (Inr u)
    with d Cons.prems have rest: "forEachE (\<lambda>branch. deleteRemoteBranch env repo ORIGIN branch) bs h1 = (r, h')"
      by (simp add: thenE_def bindE_def)
    from deleteRemoteBranch_cmds [OF d] Inr have h1: "execCmds h1 = execCmds h @ [deleteCmd b]"
      by simp
    show ?thesis
    proof (cases r)
      case (Inr v)
      with Cons.IH [OF rest] h1 show ?thesis by simp
    next
      case (Inl e)
      with Cons.IH [OF rest] obtain i where "i < length bs"
        "execCmds h' = execCmds h1 @ map deleteCmd (take i bs)
         \<or> execCmds h' = execCmds h1 @ map deleteCmd (take (Suc i) bs)"
        by auto
      with h1 have "Suc i < length (b # bs)"
        "execCmds h' = execCmds h @ map deleteCmd (take (Suc i) (b # bs))
         \<or> execCmds h' = execCmds h @ map deleteCmd (take (Suc (Suc i)) (b # bs))"
        by auto
      with Inl show ?thesis by (auto intro: exI [where x = "Suc i"])
    qed
  qed
qed

lemma cleanup_cmds:
  assumes "cleanupObsoleteBranches env repo rbs (mapKeys m) h = (r, h')"
  shows "case r of
           Inr u \<Rightarrow> execCmds h' = execCmds h @ map deleteCmd (obsoleteBranches rbs m)
         | Inl e \<Rightarrow> (\<exists>i < length (obsoleteBranches rbs m).
                      execCmds h' = execCmds h @ map deleteCmd (take i (obsoleteBranches rbs m))
                      \<or> execCmds h' = execCmds h @ map deleteCmd (take (Suc i) (obsoleteBranches rbs m)))"
  using forEach_delete_cmds [of env repo "obsoleteBranches rbs m" h r h'] assms
  by (simp add: cleanupObsoleteBranches_def obsoleteBranches_def Let_def)

section \<open>The whole run\<close>

lemma checkAndUpgrade_throws:
  assumes "checkAndUpgradeBody env (branchOrDefault env branchArg) h = (Inl e, hb)"
  shows "fst (checkAndUpgrade env branchArg h) = Inl e
       \<and> (\<exists>evs. snd (checkAndUpgrade env branchArg h) = hb @ evs \<and> list_all setupEvent evs)"
proof -
  let ?handler = "thenE (ignoreError (perform env (ShRm ''-f'' (CREDENTIALS_PATH env))))
            (thenE (ignoreError (reportError env ''checking and upgrading'' e)) (throwE e))"
  have run: "checkAndUpgrade env branchArg h = ?handler hb"
    using assms by (simp add: checkAndUpgrade_def tryCatch_def Let_def)
  have "fst (?handler hb) = Inl e"
    by (auto simp: thenE_def bindE_def ignoreError_def tryCatch_def split: prod.splits sum.splits)
  moreover from emits_catch_block [of env e]
  have "\<exists>evs. snd (?handler hb) = hb @ evs \<and> list_all setupEvent evs"
    unfolding emits_def by (rule spec)
  ultimately show ?thesis by (simp add: run)
qed

lemma checkAndUpgrade_returns:
  assumes "checkAndUpgradeBody env (branchOrDefault env branchArg) h = (Inr u, hb)"
  shows "checkAndUpgrade env branchArg h = (Inr (), hb)"
  using assms by (simp add: checkAndUpgrade_def tryCatch_def Let_def)

lemma body_reaches_cleanup:
  assumes "detectUpgrade env branch h = (Inr res, h1)" and "needsUpgrade res"
    and "discoverBranches env (currentSha res) (latestSha res) h1 = (Inr (repo, rbs, m), h4)"
  shows "checkAndUpgradeBody env branch h =
           thenE (cleanupObsoleteBranches env repo rbs (mapKeys m))
             (checkExistingPr env branch (currentSha res) (latestSha res) repo m) h4"
  using assms by (simp add: body_needed upgrade_discovered)

section \<open>A failing deletion\<close>

lemma forEachE_throws:
  assumes "forEachE f bs h = (Inl e, h')"
  shows "\<exists>i hi. i < length bs \<and> forEachE f (take i bs) h = (Inr (), hi) \<and> f (bs ! i) hi = (Inl e, h')"
  using assms
proof (induction bs arbitrary: h)
  case Nil
  then show ?case by simp
next
  case (Cons b bs)
  obtain r1 h1 where fb: "f b h = (r1, h1)" by (cases "f b h")
  show ?case
  proof (cases r1)
    case (Inl x)
    with fb Cons.prems have "f b h = (Inl e, h')"
      by (simp add: thenE_def bindE_def)
    then have "0 < length (b # bs) \<and> forEachE f (take 0 (b # bs)) h = (Inr (), h)
               \<and> f ((b # bs) ! 0) h = (Inl e, h')"
      by simp
    then show ?thesis by blast
  next
    case (Inr u)
    with fb Cons.prems have "forEachE f bs h1 = (Inl e, h')"
      by (simp add: thenE_def bindE_def)
    from Cons.IH [OF this] obtain i hi where
      "i < length bs" "forEachE f (take i bs) h1 = (Inr (), hi)" "f (bs ! i) hi = (Inl e, h')"
      by blast
    with fb Inr have "Suc i < length (b # bs) \<and> forEachE f (take (Suc i) (b # bs)) h = (Inr (), hi)
               \<and> f ((b # bs) ! Suc i) hi = (Inl e, h')"
      by (simp add: thenE_def bindE_def)
    then show ?thesis by blast
  qed
qed

lemma forEachE_failing_item:
  assumes "i < length bs" and "forEachE f (take i bs) h = (Inr (), hi)" and "f (bs ! i) hi = (Inl e, h')"
  shows "forEachE f bs h = (Inl e, h')"
  using assms
proof (induction bs arbitrary: h i)
  case Nil
  then show ?case by simp
next
  case (Cons b bs)
  show ?case
  proof (cases i)
    case 0
    with Cons.prems show ?thesis by (simp add: thenE_def bindE_def)
  next
    case (Suc j)
    obtain r1 h1 where fb: "f b h = (r1, h1)" by (cases "f b h")
    from Cons.prems(2) Suc fb obtain u where r1: "r1 = Inr u"
      and rest: "forEachE f (take j bs) h1 = (Inr (), hi)"
      by (cases r1) (simp_all add: thenE_def bindE_def)
    from Cons.prems(1,3) Suc have "j < length bs" "f (bs ! j) hi = (Inl e, h')" by simp_all
    from Cons.IH [OF this(1) rest this(2)] fb r1 show ?thesis
      by (simp add: thenE_def bindE_def)
  qed
qed

lemma cleanup_forEach:
  "cleanupObsoleteBranches env repo rbs (mapKeys m) =
     forEachE (\<lambda>branch. deleteRemoteBranch env repo ORIGIN branch) (obsoleteBranches rbs m)"
  by (simp add: cleanupObsoleteBranches_def obsoleteBranches_def Let_def)

lemma setup_no_push:
  assumes "list_all setupEvent evs"
  shows "list_all (\<lambda>c. \<not> startsWith c ''git push'') (execCmds evs)"
  using assms by (induction evs rule: execCmds.induct) auto

text \<open>
  C3, as amended. Take a run that has found the relevant branches and the map of open pull
  requests and comes to the clean-up; \<open>obs\<close> are the branches without open pull request.
  If the deletions of the first \<open>i\<close> of them succeed and the deletion of the next one throws
  \<open>e\<close>, then the clean-up throws \<open>e\<close> there and the run throws \<open>e\<close>: the error is not
  caught. The commands executed up to that moment are the deletions of the first \<open>i\<close>
  branches and at most the failed one, and what the run does afterwards belongs to the
  \<^verbatim>\<open>catch\<close> block, where no command is a push: the branches after the failed one are not
  attempted. The clean-up throws in no other way. If it returns, it has executed the deleting
  command for every branch without open pull request, in their order.
\<close>

theorem cleanup_failure_aborts:
  assumes "detectUpgrade env (branchOrDefault env branchArg) h = (Inr res, h1)" and "needsUpgrade res"
    and "discoverBranches env (currentSha res) (latestSha res) h1 = (Inr (repo, rbs, m), h4)"
    and "obs = obsoleteBranches rbs m"
  shows "(\<forall>i hi e h5.
            i < length obs
            \<and> forEachE (\<lambda>branch. deleteRemoteBranch env repo ORIGIN branch) (take i obs) h4 = (Inr (), hi)
            \<and> deleteRemoteBranch env repo ORIGIN (obs ! i) hi = (Inl e, h5)
            \<longrightarrow> cleanupObsoleteBranches env repo rbs (mapKeys m) h4 = (Inl e, h5)
              \<and> fst (checkAndUpgrade env branchArg h) = Inl e
              \<and> (\<exists>evs. snd (checkAndUpgrade env branchArg h) = h5 @ evs \<and> list_all setupEvent evs
                        \<and> list_all (\<lambda>c. \<not> startsWith c ''git push'') (execCmds evs))
              \<and> execCmds hi = execCmds h4 @ map deleteCmd (take i obs)
              \<and> (execCmds h5 = execCmds hi \<or> execCmds h5 = execCmds hi @ [deleteCmd (obs ! i)]))
       \<and> (\<forall>e h5. cleanupObsoleteBranches env repo rbs (mapKeys m) h4 = (Inl e, h5) \<longrightarrow>
            (\<exists>i hi. i < length obs
               \<and> forEachE (\<lambda>branch. deleteRemoteBranch env repo ORIGIN branch) (take i obs) h4 = (Inr (), hi)
               \<and> deleteRemoteBranch env repo ORIGIN (obs ! i) hi = (Inl e, h5)))
       \<and> (\<forall>h5. cleanupObsoleteBranches env repo rbs (mapKeys m) h4 = (Inr (), h5) \<longrightarrow>
            execCmds h5 = execCmds h4 @ map deleteCmd obs)"
proof (intro conjI allI impI)
  fix i hi e h5
  assume a: "i < length obs
            \<and> forEachE (\<lambda>branch. deleteRemoteBranch env repo ORIGIN branch) (take i obs) h4 = (Inr (), hi)
            \<and> deleteRemoteBranch env repo ORIGIN (obs ! i) hi = (Inl e, h5)"
  then have i: "i < length obs"
    and pre: "forEachE (\<lambda>branch. deleteRemoteBranch env repo ORIGIN branch) (take i obs) h4 = (Inr (), hi)"
    and fail: "deleteRemoteBranch env repo ORIGIN (obs ! i) hi = (Inl e, h5)"
    by simp_all
  from forEachE_failing_item [OF i pre fail]
  show cl: "cleanupObsoleteBranches env repo rbs (mapKeys m) h4 = (Inl e, h5)"
    by (simp add: cleanup_forEach assms(4))
  with body_reaches_cleanup [OF assms(1-3)]
  have "checkAndUpgradeBody env (branchOrDefault env branchArg) h = (Inl e, h5)"
    by (simp add: thenE_def bindE_def)
  from checkAndUpgrade_throws [OF this]
  show "fst (checkAndUpgrade env branchArg h) = Inl e"
    and "\<exists>evs. snd (checkAndUpgrade env branchArg h) = h5 @ evs \<and> list_all setupEvent evs
                \<and> list_all (\<lambda>c. \<not> startsWith c ''git push'') (execCmds evs)"
    by (auto dest: setup_no_push)
  from forEach_delete_cmds [OF pre]
  show "execCmds hi = execCmds h4 @ map deleteCmd (take i obs)"
    by simp
  from deleteRemoteBranch_cmds [OF fail]
  show "execCmds h5 = execCmds hi \<or> execCmds h5 = execCmds hi @ [deleteCmd (obs ! i)]"
    by simp
next
  fix e h5
  assume "cleanupObsoleteBranches env repo rbs (mapKeys m) h4 = (Inl e, h5)"
  then have "forEachE (\<lambda>branch. deleteRemoteBranch env repo ORIGIN branch) obs h4 = (Inl e, h5)"
    by (simp add: cleanup_forEach assms(4))
  from forEachE_throws [OF this]
  show "\<exists>i hi. i < length obs
               \<and> forEachE (\<lambda>branch. deleteRemoteBranch env repo ORIGIN branch) (take i obs) h4 = (Inr (), hi)
               \<and> deleteRemoteBranch env repo ORIGIN (obs ! i) hi = (Inl e, h5)" .
next
  fix h5
  assume "cleanupObsoleteBranches env repo rbs (mapKeys m) h4 = (Inr (), h5)"
  from cleanup_cmds [OF this]
  show "execCmds h5 = execCmds h4 @ map deleteCmd obs"
    by (simp add: assms(4))
qed

text \<open>
  The claim as stated fails where the deletion of \<open>old2\<close> fails: the run throws that
  error, the deletion of \<open>old3\<close> is never attempted, and nothing is passed to
  \<^verbatim>\<open>logger.warn\<close>.
\<close>

theorem cleanup_best_effort_counterexample:
  "fst (checkAndUpgrade failEnv None []) = Inl (Error ''remote rejected'')
   \<and> execCmds (snd (checkAndUpgrade failEnv None [])) =
       [''git init'', ''git remote remove origin || true'',
        ''git remote add origin https://github.com/ngbot/angular.git'',
        ''git remote remove upstream || true'',
        ''git remote add upstream https://github.com/angular/angular.git'',
        ''git fetch origin --depth 1 --no-tags'', ''git branch --remote'',
        ''git push origin :upgrade-cli-src--master--old2'']
   \<and> warnings (snd (checkAndUpgrade failEnv None [])) = []"
  by code_simp

lemma run_eq: "fst p = r \<Longrightarrow> p = (r, snd p)"
  by (cases p) simp


lemma failSecond_branch: "branchOrDefault failSecondEnv None = ''master''"
  by (simp add: branchOrDefault_def failSecondEnv_def demoEnv_def)

lemma failSecond_detect:
  "fst (detectUpgrade failSecondEnv ''master'' [])
     = Inr \<lparr>currentSha = ''aaa1111'', latestSha = ''bbb2222'', needsUpgrade = True\<rparr>"
  by code_simp

lemma failSecond_discover:
  "fst (discoverBranches failSecondEnv ''aaa1111'' ''bbb2222'' (snd (detectUpgrade failSecondEnv ''master'' [])))
     = Inr (demoRepo, [''upgrade-cli-src--master--old1'', ''upgrade-cli-src--master--old2'',
                       ''upgrade-cli-src--master--old3'', ''upgrade-cli-src--master--old4''], demoMap)"
  by code_simp

lemma failSecond_first:
  "fst (forEachE (\<lambda>branch. deleteRemoteBranch failSecondEnv demoRepo ORIGIN branch)
          [''upgrade-cli-src--master--old2'']
          (snd (discoverBranches failSecondEnv ''aaa1111'' ''bbb2222''
                 (snd (detectUpgrade failSecondEnv ''master'' [])))))
     = Inr ()"
  by code_simp

lemma failSecond_second:
  "fst (deleteRemoteBranch failSecondEnv demoRepo ORIGIN ''upgrade-cli-src--master--old3''
          (snd (forEachE (\<lambda>branch. deleteRemoteBranch failSecondEnv demoRepo ORIGIN branch)
                 [''upgrade-cli-src--master--old2'']
                 (snd (discoverBranches failSecondEnv ''aaa1111'' ''bbb2222''
                        (snd (detectUpgrade failSecondEnv ''master'' [])))))))
     = Inl (Error ''remote rejected'')"
  by code_simp

theorem cleanup_failure_aborts_witness:
  "cleanupObsoleteBranches failSecondEnv demoRepo
       [''upgrade-cli-src--master--old1'', ''upgrade-cli-src--master--old2'',
        ''upgrade-cli-src--master--old3'', ''upgrade-cli-src--master--old4''] (mapKeys demoMap)
       (snd (discoverBranches failSecondEnv ''aaa1111'' ''bbb2222''
              (snd (detectUpgrade failSecondEnv ''master'' []))))
     = (Inl (Error ''remote rejected''),
        snd (deleteRemoteBranch failSecondEnv demoRepo ORIGIN ''upgrade-cli-src--master--old3''
          (snd (forEachE (\<lambda>branch. deleteRemoteBranch failSecondEnv demoRepo ORIGIN branch)
                 [''upgrade-cli-src--master--old2'']
                 (snd (discoverBranches failSecondEnv ''aaa1111'' ''bbb2222''
                        (snd (detectUpgrade failSecondEnv ''master'' []))))))))
   \<and> fst (checkAndUpgrade failSecondEnv None []) = Inl (Error ''remote rejected'')
   \<and> (\<exists>evs. snd (checkAndUpgrade failSecondEnv None [])
         = snd (deleteRemoteBranch failSecondEnv demoRepo ORIGIN ''upgrade-cli-src--master--old3''
             (snd (forEachE (\<lambda>branch. deleteRemoteBranch failSecondEnv demoRepo ORIGIN branch)
                 [''upgrade-cli-src--master--old2'']
                 (snd (discoverBranches failSecondEnv ''aaa1111'' ''bbb2222''
                        (snd (detectUpgrade failSecondEnv ''master'' [])))))))
           @ evs
         \<and> list_all (\<lambda>c. \<not> startsWith c ''git push'') (execCmds evs))"
proof -
  let ?res = "\<lparr>currentSha = ''aaa1111'', latestSha = ''bbb2222'', needsUpgrade = True\<rparr>"
  let ?rbs = "[''upgrade-cli-src--master--old1'', ''upgrade-cli-src--master--old2'',
               ''upgrade-cli-src--master--old3'', ''upgrade-cli-src--master--old4'']"
  let ?obs = "[''upgrade-cli-src--master--old2'', ''upgrade-cli-src--master--old3'',
               ''upgrade-cli-src--master--old4'']"
  let ?del = "\<lambda>branch. deleteRemoteBranch failSecondEnv demoRepo ORIGIN branch"
  let ?h1 = "snd (detectUpgrade failSecondEnv ''master'' [])"
  let ?h4 = "snd (discoverBranches failSecondEnv ''aaa1111'' ''bbb2222'' ?h1)"
  let ?hi = "snd (forEachE ?del [''upgrade-cli-src--master--old2''] ?h4)"
  let ?h5 = "snd (deleteRemoteBranch failSecondEnv demoRepo ORIGIN ''upgrade-cli-src--master--old3'' ?hi)"
  have 1: "detectUpgrade failSecondEnv (branchOrDefault failSecondEnv None) [] = (Inr ?res, ?h1)"
    using run_eq [OF failSecond_detect] by (simp add: failSecond_branch)
  have 2: "needsUpgrade ?res" by simp
  have 3: "discoverBranches failSecondEnv (currentSha ?res) (latestSha ?res) ?h1
             = (Inr (demoRepo, ?rbs, demoMap), ?h4)"
    using run_eq [OF failSecond_discover] by simp
  have 4: "?obs = obsoleteBranches ?rbs demoMap"
    by (simp add: obsoleteBranches_def mapKeys_def demoMap_def)
  have pre: "1 < length ?obs
             \<and> forEachE ?del (take 1 ?obs) ?h4 = (Inr (), ?hi)
             \<and> deleteRemoteBranch failSecondEnv demoRepo ORIGIN (?obs ! 1) ?hi
                 = (Inl (Error ''remote rejected''), ?h5)"
    using run_eq [OF failSecond_first] run_eq [OF failSecond_second] by simp
  from cleanup_failure_aborts [OF 1 2 3 4]
  have "\<forall>i hi e h5.
            i < length ?obs
            \<and> forEachE ?del (take i ?obs) ?h4 = (Inr (), hi)
            \<and> deleteRemoteBranch failSecondEnv demoRepo ORIGIN (?obs ! i) hi = (Inl e, h5)
            \<longrightarrow> cleanupObsoleteBranches failSecondEnv demoRepo ?rbs (mapKeys demoMap) ?h4 = (Inl e, h5)
              \<and> fst (checkAndUpgrade failSecondEnv None []) = Inl e
              \<and> (\<exists>evs. snd (checkAndUpgrade failSecondEnv None []) = h5 @ evs \<and> list_all setupEvent evs
                        \<and> list_all (\<lambda>c. \<not> startsWith c ''git push'') (execCmds evs))
              \<and> execCmds hi = execCmds ?h4 @ map deleteCmd (take i ?obs)
              \<and> (execCmds h5 = execCmds hi \<or> execCmds h5 = execCmds hi @ [deleteCmd (?obs ! i)])"
    by (rule conjunct1)
  from this [rule_format, OF pre] show ?thesis by blast
qed

section \<open>Runs that come to the check for an existing pull request\<close>

lemma setupEvent_not_new_work: "setupEvent e \<Longrightarrow> \<not> isNewWork e"
  by (cases e) auto

lemma setupEvent_no_push: "setupEvent e \<Longrightarrow> onExec (\<lambda>c. startsWith c ''git push'' \<longrightarrow> Q c) e"
  by (cases e) auto

lemma deletion_not_new_work: "gitEvents (\<lambda>c. c \<in> deleteCmd ` set bs) e \<Longrightarrow> \<not> isNewWork e"
  by (cases e) (auto simp: deleteCmd_not_new_work)

lemma deletion_push: "gitEvents (\<lambda>c. c \<in> deleteCmd ` set bs) e \<Longrightarrow>
    onExec (\<lambda>c. startsWith c ''git push'' \<longrightarrow> c \<in> deleteCmd ` set bs) e"
  by (cases e) auto

lemma list_all_weaken: "list_all P xs \<Longrightarrow> (\<And>x. P x \<Longrightarrow> Q x) \<Longrightarrow> list_all Q xs"
  by (auto simp: list_all_iff)

lemma events_to_cleanup:
  assumes "detectUpgrade env branch h = (r1, h1)"
    and "discoverBranches env cur lat h1 = (r4, h4)"
    and "cleanupObsoleteBranches env repo rbs (mapKeys m) h4 = (r5, h5)"
  shows "\<exists>e1 e2 e3. h1 = h @ e1 \<and> h4 = h @ e1 @ e2 \<and> h5 = h @ e1 @ e2 @ e3
           \<and> list_all setupEvent e1 \<and> list_all setupEvent e2
           \<and> list_all (gitEvents (\<lambda>c. c \<in> deleteCmd ` set (obsoleteBranches rbs m))) e3"
proof -
  from emitsD [OF emits_detectUpgrade assms(1)] obtain e1 where
    "h1 = h @ e1" "list_all setupEvent e1" by blast
  moreover from emitsD [OF emits_discoverBranches assms(2)] obtain e2 where
    "h4 = h1 @ e2" "list_all setupEvent e2" by blast
  moreover from emitsD [OF emits_cleanupObsoleteBranches assms(3)] obtain e3 where
    "h5 = h4 @ e3" "list_all (gitEvents (\<lambda>c. c \<in> deleteCmd ` set (obsoleteBranches rbs m))) e3" by blast
  ultimately show ?thesis by auto
qed

lemma map_of_key: "k \<in> set (mapKeys m) \<Longrightarrow> \<exists>v. map_of m k = Some v"
  by (cases "map_of m k") (auto simp: mapKeys_def map_of_eq_None_iff)

text \<open>
  C1, as amended. Take a run that has found the relevant branches and the map of open pull
  requests, and in which the automation branch for \<open>latestSha\<close> is a key of the map. Line 71
  runs before the check of line 74. If the clean-up returns, the run returns normally, and
  its last event, the only one after the clean-up, is the report of the pull requests that
  the map holds for that branch. If the clean-up throws, the run throws the same error and
  reports nothing. In both cases nothing in the run is new work (no local branch is created,
  no change applied, no commit made, no pull request created, labelled or commented on), and
  every push is a command that deletes a branch without open pull request, issued by the
  clean-up.
\<close>

theorem existing_pr_short_circuit:
  assumes "detectUpgrade env (branchOrDefault env branchArg) h = (Inr res, h1)" and "needsUpgrade res"
    and "discoverBranches env (currentSha res) (latestSha res) h1 = (Inr (repo, rbs, m), h4)"
    and "cleanupObsoleteBranches env repo rbs (mapKeys m) h4 = (r5, h5)"
    and "LOCAL_BRANCH_PREFIX @ ''--'' @ branchOrDefault env branchArg @ ''--'' @ latestSha res
           \<in> set (mapKeys m)"
  shows "(r5 = Inr () \<longrightarrow>
           (\<exists>existingPrs.
              map_of m (LOCAL_BRANCH_PREFIX @ ''--'' @ branchOrDefault env branchArg @ ''--'' @ latestSha res)
                = Some existingPrs
              \<and> checkAndUpgrade env branchArg h =
                  (Inr (), h5 @ [LogInfo (''PR for latest SHA ('' @ latestSha res @ '') already exists:'' @ NL
                     @ joinWith NL (map (\<lambda>pr. ''  #'' @ showNat (number pr) @ '' ('' @ html_url pr @ '')'')
                         existingPrs))])))
       \<and> (\<forall>e. r5 = Inl e \<longrightarrow>
             fst (checkAndUpgrade env branchArg h) = Inl e
             \<and> (\<exists>evs. snd (checkAndUpgrade env branchArg h) = h5 @ evs \<and> list_all setupEvent evs)
             \<and> list_all (\<lambda>e. \<not> isExistingPrReport e) (drop (length h) (snd (checkAndUpgrade env branchArg h))))
       \<and> list_all (\<lambda>e. \<not> isNewWork e) (drop (length h) (snd (checkAndUpgrade env branchArg h)))
       \<and> list_all (onExec (\<lambda>c. startsWith c ''git push'' \<longrightarrow> c \<in> deleteCmd ` set (obsoleteBranches rbs m)))
            (drop (length h) (snd (checkAndUpgrade env branchArg h)))"
proof -
  let ?b = "branchOrDefault env branchArg"
  let ?k = "LOCAL_BRANCH_PREFIX @ ''--'' @ ?b @ ''--'' @ latestSha res"
  let ?push = "onExec (\<lambda>c. startsWith c ''git push'' \<longrightarrow> c \<in> deleteCmd ` set (obsoleteBranches rbs m))"
  from events_to_cleanup [OF assms(1,3,4)] obtain e1 e2 e3 where
    h5: "h5 = h @ e1 @ e2 @ e3" and s1: "list_all setupEvent e1" and s2: "list_all setupEvent e2"
    and s3: "list_all (gitEvents (\<lambda>c. c \<in> deleteCmd ` set (obsoleteBranches rbs m))) e3"
    by blast
  have nw: "list_all (\<lambda>e. \<not> isNewWork e) (e1 @ e2 @ e3)"
    using list_all_weaken [OF s1 setupEvent_not_new_work] list_all_weaken [OF s2 setupEvent_not_new_work]
      list_all_weaken [OF s3 deletion_not_new_work]
    by simp
  have pu: "list_all ?push (e1 @ e2 @ e3)"
    using list_all_weaken [OF s1 setupEvent_no_push] list_all_weaken [OF s2 setupEvent_no_push]
      list_all_weaken [OF s3 deletion_push]
    by simp
  have qu: "list_all quiet (e1 @ e2 @ e3)"
    using list_all_weaken [OF s1 setupEvent_quiet] list_all_weaken [OF s2 setupEvent_quiet]
      list_all_weaken [OF s3 deletion_quiet]
    by simp
  have reach: "checkAndUpgradeBody env ?b h =
      thenE (cleanupObsoleteBranches env repo rbs (mapKeys m))
        (checkExistingPr env ?b (currentSha res) (latestSha res) repo m) h4"
    by (rule body_reaches_cleanup [OF assms(1-3)])
  show ?thesis
  proof (cases r5)
    case (Inr u)
    from map_of_key [OF assms(5)] obtain prs where prs: "map_of m ?k = Some prs" ..
    let ?report = "LogInfo (''PR for latest SHA ('' @ latestSha res @ '') already exists:'' @ NL
                   @ joinWith NL (map (\<lambda>pr. ''  #'' @ showNat (number pr) @ '' ('' @ html_url pr @ '')'') prs))"
    have "checkAndUpgradeBody env ?b h = checkExistingPr env ?b (currentSha res) (latestSha res) repo m h5"
      using reach assms(4) Inr by (simp add: thenE_def bindE_def)
    also have "\<dots> = (Inr (), h5 @ [?report])"
      using assms(5) prs by (simp add: checkExistingPr_def Let_def)
    finally have run: "checkAndUpgrade env branchArg h = (Inr (), h5 @ [?report])"
      by (rule checkAndUpgrade_returns)
    then have new: "drop (length h) (snd (checkAndUpgrade env branchArg h)) = (e1 @ e2 @ e3) @ [?report]"
      using h5 by simp
    have "list_all (\<lambda>e. \<not> isNewWork e) ((e1 @ e2 @ e3) @ [?report])"
      using nw by simp
    moreover have "list_all ?push ((e1 @ e2 @ e3) @ [?report])"
      using pu by simp
    ultimately show ?thesis using Inr prs run new by simp
  next
    case (Inl e)
    have "checkAndUpgradeBody env ?b h = (Inl e, h5)"
      using reach assms(4) Inl by (simp add: thenE_def bindE_def)
    from checkAndUpgrade_throws [OF this] obtain evs where
      f: "fst (checkAndUpgrade env branchArg h) = Inl e"
      and s: "snd (checkAndUpgrade env branchArg h) = h5 @ evs" and se: "list_all setupEvent evs"
      by blast
    have new: "drop (length h) (snd (checkAndUpgrade env branchArg h)) = (e1 @ e2 @ e3) @ evs"
      using s h5 by simp
    have "list_all (\<lambda>e. \<not> isNewWork e) ((e1 @ e2 @ e3) @ evs)"
      using nw list_all_weaken [OF se setupEvent_not_new_work] by simp
    moreover have "list_all ?push ((e1 @ e2 @ e3) @ evs)"
      using pu list_all_weaken [OF se setupEvent_no_push] by simp
    moreover have "list_all quiet ((e1 @ e2 @ e3) @ evs)"
      using qu list_all_weaken [OF se setupEvent_quiet] by simp
    then have "list_all (\<lambda>e. \<not> isExistingPrReport e) ((e1 @ e2 @ e3) @ evs)"
      by (rule list_all_weaken) (simp add: quiet_def)
    ultimately show ?thesis using Inl f s se new by auto
  qed
qed

text \<open>
  The claim as stated fails where the branch for the latest Sha is a key of the map and the
  deletion of the stale branch \<open>old2\<close> fails: the run throws and reports nothing. And where
  that deletion succeeds, the run that reports the existing pull request has made a push, the
  one that deletes \<open>old2\<close>.
\<close>

theorem existing_pr_report_counterexample:
  "fst (discoverBranches existsFailEnv ''aaa1111'' ''bbb2222'' (snd (detectUpgrade existsFailEnv ''master'' [])))
     = Inr (demoRepo, [''upgrade-cli-src--master--old2'', ''upgrade-cli-src--master--bbb2222''], existsMap)
   \<and> LOCAL_BRANCH_PREFIX @ ''--'' @ ''master'' @ ''--'' @ ''bbb2222'' \<in> set (mapKeys existsMap)
   \<and> fst (checkAndUpgrade existsFailEnv None []) = Inl (Error ''remote rejected'')
   \<and> filter isExistingPrReport (snd (checkAndUpgrade existsFailEnv None [])) = []
   \<and> fst (checkAndUpgrade existsEnv None []) = Inr ()
   \<and> ShExec ''git push origin :upgrade-cli-src--master--old2'' \<in> set (snd (checkAndUpgrade existsEnv None []))"
  by code_simp

lemma exists_branch: "branchOrDefault existsEnv None = ''master''"
  by (simp add: branchOrDefault_def existsEnv_def demoEnv_def)

lemma exists_detect:
  "fst (detectUpgrade existsEnv ''master'' [])
     = Inr \<lparr>currentSha = ''aaa1111'', latestSha = ''bbb2222'', needsUpgrade = True\<rparr>"
  by code_simp

lemma exists_discover:
  "fst (discoverBranches existsEnv ''aaa1111'' ''bbb2222'' (snd (detectUpgrade existsEnv ''master'' [])))
     = Inr (demoRepo, [''upgrade-cli-src--master--old2'', ''upgrade-cli-src--master--bbb2222''], existsMap)"
  by code_simp

lemma exists_cleanup:
  "fst (cleanupObsoleteBranches existsEnv demoRepo
          [''upgrade-cli-src--master--old2'', ''upgrade-cli-src--master--bbb2222''] (mapKeys existsMap)
          (snd (discoverBranches existsEnv ''aaa1111'' ''bbb2222'' (snd (detectUpgrade existsEnv ''master'' [])))))
     = Inr ()"
  by code_simp

lemma showNat_12: "showNat 12 = ''12''"
  by code_simp

lemma existsFail_branch: "branchOrDefault existsFailEnv None = ''master''"
  by (simp add: branchOrDefault_def existsFailEnv_def existsEnv_def demoEnv_def)

lemma existsFail_detect:
  "fst (detectUpgrade existsFailEnv ''master'' [])
     = Inr \<lparr>currentSha = ''aaa1111'', latestSha = ''bbb2222'', needsUpgrade = True\<rparr>"
  by code_simp

lemma existsFail_discover:
  "fst (discoverBranches existsFailEnv ''aaa1111'' ''bbb2222'' (snd (detectUpgrade existsFailEnv ''master'' [])))
     = Inr (demoRepo, [''upgrade-cli-src--master--old2'', ''upgrade-cli-src--master--bbb2222''], existsMap)"
  by code_simp

lemma existsFail_cleanup:
  "fst (cleanupObsoleteBranches existsFailEnv demoRepo
          [''upgrade-cli-src--master--old2'', ''upgrade-cli-src--master--bbb2222''] (mapKeys existsMap)
          (snd (discoverBranches existsFailEnv ''aaa1111'' ''bbb2222''
                 (snd (detectUpgrade existsFailEnv ''master'' [])))))
     = Inl (Error ''remote rejected'')"
  by code_simp

theorem existing_pr_short_circuit_witness:
  "checkAndUpgrade existsEnv None [] =
     (Inr (),
      snd (cleanupObsoleteBranches existsEnv demoRepo
             [''upgrade-cli-src--master--old2'', ''upgrade-cli-src--master--bbb2222''] (mapKeys existsMap)
             (snd (discoverBranches existsEnv ''aaa1111'' ''bbb2222'' (snd (detectUpgrade existsEnv ''master'' [])))))
      @ [LogInfo (''PR for latest SHA (bbb2222) already exists:'' @ NL
                  @ ''  #12 (https://github.com/angular/angular/pull/12)'')])
   \<and> list_all (\<lambda>e. \<not> isNewWork e) (snd (checkAndUpgrade existsEnv None []))
   \<and> fst (checkAndUpgrade existsFailEnv None []) = Inl (Error ''remote rejected'')
   \<and> list_all (\<lambda>e. \<not> isExistingPrReport e) (snd (checkAndUpgrade existsFailEnv None []))
   \<and> list_all (\<lambda>e. \<not> isNewWork e) (snd (checkAndUpgrade existsFailEnv None []))"
proof -
  let ?res = "\<lparr>currentSha = ''aaa1111'', latestSha = ''bbb2222'', needsUpgrade = True\<rparr>"
  let ?rbs = "[''upgrade-cli-src--master--old2'', ''upgrade-cli-src--master--bbb2222'']"
  let ?h1 = "snd (detectUpgrade existsEnv ''master'' [])"
  let ?h4 = "snd (discoverBranches existsEnv ''aaa1111'' ''bbb2222'' ?h1)"
  let ?h5 = "snd (cleanupObsoleteBranches existsEnv demoRepo ?rbs (mapKeys existsMap) ?h4)"
  let ?g1 = "snd (detectUpgrade existsFailEnv ''master'' [])"
  let ?g4 = "snd (discoverBranches existsFailEnv ''aaa1111'' ''bbb2222'' ?g1)"
  let ?g5 = "snd (cleanupObsoleteBranches existsFailEnv demoRepo ?rbs (mapKeys existsMap) ?g4)"
  have 1: "detectUpgrade existsEnv (branchOrDefault existsEnv None) [] = (Inr ?res, ?h1)"
    using run_eq [OF exists_detect] by (simp add: exists_branch)
  have 2: "needsUpgrade ?res" by simp
  have 3: "discoverBranches existsEnv (currentSha ?res) (latestSha ?res) ?h1 = (Inr (demoRepo, ?rbs, existsMap), ?h4)"
    using run_eq [OF exists_discover] by simp
  have 4: "cleanupObsoleteBranches existsEnv demoRepo ?rbs (mapKeys existsMap) ?h4 = (Inr (), ?h5)"
    using run_eq [OF exists_cleanup] by simp
  have 5: "LOCAL_BRANCH_PREFIX @ ''--'' @ branchOrDefault existsEnv None @ ''--'' @ latestSha ?res
             \<in> set (mapKeys existsMap)"
    by (simp add: exists_branch LOCAL_BRANCH_PREFIX_def mapKeys_def existsMap_def)
  note T = existing_pr_short_circuit [OF 1 2 3 4 5]
  have run: "checkAndUpgrade existsEnv None [] =
     (Inr (), ?h5 @ [LogInfo (''PR for latest SHA (bbb2222) already exists:'' @ NL
                  @ ''  #12 (https://github.com/angular/angular/pull/12)'')])"
    using T by (simp add: exists_branch LOCAL_BRANCH_PREFIX_def existsMap_def showNat_12)
  have nw: "list_all (\<lambda>e. \<not> isNewWork e) (snd (checkAndUpgrade existsEnv None []))"
    using T by simp
  have 6: "detectUpgrade existsFailEnv (branchOrDefault existsFailEnv None) [] = (Inr ?res, ?g1)"
    using run_eq [OF existsFail_detect] by (simp add: existsFail_branch)
  have 7: "discoverBranches existsFailEnv (currentSha ?res) (latestSha ?res) ?g1
             = (Inr (demoRepo, ?rbs, existsMap), ?g4)"
    using run_eq [OF existsFail_discover] by simp
  have 8: "cleanupObsoleteBranches existsFailEnv demoRepo ?rbs (mapKeys existsMap) ?g4
             = (Inl (Error ''remote rejected''), ?g5)"
    using run_eq [OF existsFail_cleanup] by simp
  have 9: "LOCAL_BRANCH_PREFIX @ ''--'' @ branchOrDefault existsFailEnv None @ ''--'' @ latestSha ?res
             \<in> set (mapKeys existsMap)"
    by (simp add: existsFail_branch LOCAL_BRANCH_PREFIX_def mapKeys_def existsMap_def)
  note U = existing_pr_short_circuit [OF 6 2 7 8 9]
  have b1: "fst (checkAndUpgrade existsFailEnv None []) = Inl (Error ''remote rejected'')"
    using U by simp
  have b2: "list_all (\<lambda>e. \<not> isExistingPrReport e) (snd (checkAndUpgrade existsFailEnv None []))"
    using U by simp
  have b3: "list_all (\<lambda>e. \<not> isNewWork e) (snd (checkAndUpgrade existsFailEnv None []))"
    using U by simp
  from run nw b1 b2 b3 show ?thesis by (intro conjI)
qed

section \<open>The clean-up comes first\<close>









section \<open>After the new pull request\<close>
















end
